theory Spec2Isabelle
  imports Complex_Main "HOL-Library.Code_Target_Numeral"
begin

section \<open>Range selection (frontend/src/hooks/useRangeSelection.ts)\<close>

text \<open>
  The hook keeps a \<open>RangeSelectionState\<close>: the set of selected ids and the anchor id,
  \<open>null\<close> being \<open>None\<close>. Ids are numbers or strings in the source; the model is
  polymorphic in the id type and compares ids with equality.
\<close>

record 'a RangeSelectionState =
  selectedIds :: "'a set"
  anchorId :: "'a option"

text \<open>The three modifier flags of \<open>React.MouseEvent\<close> that \<open>onItemClick\<close> reads.\<close>

record MouseEvent =
  metaKey :: bool
  ctrlKey :: bool
  shiftKey :: bool

text \<open>
  \<open>Array.prototype.indexOf\<close>: the position of the first occurrence, \<open>-1\<close> when the
  element does not occur.
\<close>

fun indexOf :: "'a list \<Rightarrow> 'a \<Rightarrow> int" where
  "indexOf [] x = - 1"
| "indexOf (y # ys) x =
     (if y = x then 0
      else (let r = indexOf ys x in if r = - 1 then - 1 else r + 1))"

text \<open>
  The loop \<open>for (let i = start; i <= end; i++) nextSelected.add(orderedIds[i])\<close>.
  Both bounds come from \<open>indexOf\<close> and are positions of the array (lemma
  \<open>indexOf_bounds\<close>), so the read \<open>orderedIds[i]\<close> is in range whenever
  \<open>onItemClick\<close> runs the loop; the guard on \<open>i\<close> only keeps the model away from
  \<open>nth\<close> outside the list.
\<close>

function addRange :: "'a list \<Rightarrow> int \<Rightarrow> int \<Rightarrow> 'a set \<Rightarrow> 'a set" where
  "addRange orderedIds i end nextSelected =
     (if i \<le> end
      then addRange orderedIds (i + 1) end
             (if 0 \<le> i \<and> i < int (length orderedIds)
              then insert (orderedIds ! nat i) nextSelected else nextSelected)
      else nextSelected)"
  by pat_completeness auto
termination
  by (relation "measure (\<lambda>(orderedIds, i, end, nextSelected). nat (end + 1 - i))") auto

declare addRange.simps [simp del]

text \<open>
  The state update inside \<open>setState\<close> of \<open>onItemClick\<close>. The branches are in the
  source's order: the shift branch (entered only with a non-null anchor), then the
  meta/ctrl branch, then the plain click.
\<close>

definition onItemClick ::
  "'a list \<Rightarrow> 'a \<Rightarrow> MouseEvent \<Rightarrow> 'a RangeSelectionState \<Rightarrow> 'a RangeSelectionState" where
  "onItemClick orderedIds ident event prev =
     (let isMeta = (metaKey event \<or> ctrlKey event);
          isShift = shiftKey event;
          nextSelected = selectedIds prev;
          nextAnchor = anchorId prev
      in if isShift \<and> anchorId prev \<noteq> None
         then (let anchorIndex = indexOf orderedIds (the (anchorId prev));
                   targetIndex = indexOf orderedIds ident
               in if anchorIndex = - 1 \<or> targetIndex = - 1
                  then \<lparr>selectedIds = {ident}, anchorId = Some ident\<rparr>
                  else (let start = (if anchorIndex < targetIndex then anchorIndex else targetIndex);
                            end = (if anchorIndex < targetIndex then targetIndex else anchorIndex)
                        in \<lparr>selectedIds = addRange orderedIds start end {},
                            anchorId = anchorId prev\<rparr>))
         else if isMeta
         then (if ident \<in> nextSelected
               then \<lparr>selectedIds = nextSelected - {ident}, anchorId = nextAnchor\<rparr>
               else \<lparr>selectedIds = insert ident nextSelected, anchorId = nextAnchor\<rparr>)
         else \<lparr>selectedIds = {ident}, anchorId = Some ident\<rparr>)"

definition clear :: "'a RangeSelectionState" where
  "clear = \<lparr>selectedIds = {}, anchorId = None\<rparr>"

definition isSelected :: "'a RangeSelectionState \<Rightarrow> 'a \<Rightarrow> bool" where
  "isSelected state ident = (ident \<in> selectedIds state)"

text \<open>The click kinds used in statements and examples.\<close>

definition plainClick :: MouseEvent where
  "plainClick = \<lparr>metaKey = False, ctrlKey = False, shiftKey = False\<rparr>"

definition ctrlClick :: MouseEvent where
  "ctrlClick = \<lparr>metaKey = False, ctrlKey = True, shiftKey = False\<rparr>"

definition shiftClick :: MouseEvent where
  "shiftClick = \<lparr>metaKey = False, ctrlKey = False, shiftKey = True\<rparr>"

definition ctrlShiftClick :: MouseEvent where
  "ctrlShiftClick = \<lparr>metaKey = False, ctrlKey = True, shiftKey = True\<rparr>"

text \<open>
  The position of the first occurrence, written without \<open>indexOf\<close>: the length of the
  longest prefix that does not contain the element.
\<close>

definition firstPos :: "'a list \<Rightarrow> 'a \<Rightarrow> nat" where
  "firstPos xs x = length (takeWhile (\<lambda>y. y \<noteq> x) xs)"

section \<open>Task status over the push transport (frontend/src/hooks/useWebSocket.ts)\<close>

text \<open>
  A \<open>Task\<close> snapshot as declared in \<open>types/index.ts\<close>. The status is the union of four
  string literals. Optional fields are options; \<open>result\<close> is a record of unknown values,
  kept as key and raw text. The fields \<open>type\<close> and \<open>error\<close> of the task are
  \<open>task_type\<close> and \<open>task_error\<close> here (of the error only its message), and the
  \<open>status\<close> of the progress is \<open>progress_status\<close>.
\<close>

datatype TaskStatus = Pending | Running | Completed | Failed

record TaskProgress =
  current :: "int option"
  total :: "int option"
  page_id :: "int option"
  progress_status :: "string option"
  message :: "string option"
  phase :: "string option"

record Task =
  task_id :: string
  task_type :: string
  status :: TaskStatus
  progress :: "TaskProgress option"
  result :: "(string \<times> string) list option"
  task_error :: "string option"
  created_at :: string
  updated_at :: string

text \<open>
  The hook's state: the two \<open>useState\<close> cells (\<open>status\<close>, here \<open>connStatus\<close>, and
  \<open>taskData\<close>) and the two refs read by the handlers, \<open>attemptsRef.current\<close> and
  \<open>taskStatusRef.current\<close>.
\<close>

datatype ConnStatus = Connecting | Open | Closed

record WebSocketState =
  connStatus :: ConnStatus
  taskData :: "Task option"
  attemptsRef :: nat
  taskStatusRef :: "TaskStatus option"

definition initialWebSocketState :: WebSocketState where
  "initialWebSocketState =
     \<lparr>connStatus = Closed, taskData = None, attemptsRef = 0, taskStatusRef = None\<rparr>"

text \<open>
  \<open>UseWebSocketOptions\<close>: the two callbacks are optional (here: supplied or not), the two
  numbers are optional with defaults taken by \<open>??\<close>. Numbers are integers in the model;
  \<open>interval * Math.pow(2, attempts)\<close> is exact in the source as long as it stays below
  \<open>2^53\<close>.
\<close>

record UseWebSocketOptions =
  onMessage :: bool
  onError :: bool
  reconnectAttempts :: "int option"
  reconnectInterval :: "int option"

definition maxAttempts :: "UseWebSocketOptions \<Rightarrow> int" where
  "maxAttempts options = (case reconnectAttempts options of None \<Rightarrow> 5 | Some n \<Rightarrow> n)"

definition interval :: "UseWebSocketOptions \<Rightarrow> int" where
  "interval options = (case reconnectInterval options of None \<Rightarrow> 2000 | Some n \<Rightarrow> n)"

definition defaultOptions :: UseWebSocketOptions where
  "defaultOptions =
     \<lparr>onMessage = False, onError = False, reconnectAttempts = None, reconnectInterval = None\<rparr>"

text \<open>
  The payload \<open>event.data\<close> of an inbound message, described by what
  \<open>JSON.parse(event.data) as Task\<close> does with it: it throws a \<open>SyntaxError\<close> on text
  that is not JSON, and returns the snapshot otherwise.
\<close>

datatype MessageData = Malformed | Snapshot Task

datatype JsError = SyntaxError

text \<open>What a handler does to the outside: sockets, callbacks and timers.\<close>

datatype WsEffect =
    NewWebSocket string
  | CallOnMessage Task
  | CallOnError
  | SocketClose
  | SetTimeoutConnect int
  | Uncaught JsError

definition isTerminal :: "TaskStatus option \<Rightarrow> bool" where
  "isTerminal st = (st = Some Completed \<or> st = Some Failed)"

text \<open>\<open>connect\<close>: nothing without a task id (null or the empty string are falsy).\<close>

definition connect :: "string option \<Rightarrow> WebSocketState \<Rightarrow> WebSocketState \<times> WsEffect list" where
  "connect taskId s =
     (case taskId of
        None \<Rightarrow> (s, [])
      | Some tid \<Rightarrow>
          if tid = [] then (s, [])
          else (s\<lparr>connStatus := Connecting\<rparr>, [NewWebSocket tid]))"

definition ws_onopen :: "WebSocketState \<Rightarrow> WebSocketState \<times> WsEffect list" where
  "ws_onopen s = (s\<lparr>connStatus := Open, attemptsRef := 0\<rparr>, [])"

text \<open>
  \<open>ws.onmessage\<close>: \<open>JSON.parse\<close> comes first and is not inside a \<open>try\<close>, so its
  exception leaves the handler (\<open>Inl\<close>) before any cell is written.
\<close>

definition ws_onmessage ::
  "UseWebSocketOptions \<Rightarrow> MessageData \<Rightarrow> WebSocketState
     \<Rightarrow> JsError + (WebSocketState \<times> WsEffect list)" where
  "ws_onmessage options payload s =
     (case payload of
        Malformed \<Rightarrow> Inl SyntaxError
      | Snapshot data \<Rightarrow>
          Inr (s\<lparr>taskData := Some data, taskStatusRef := Some (status data)\<rparr>,
               (if onMessage options then [CallOnMessage data] else [])
               @ (if status data = Completed \<or> status data = Failed then [SocketClose] else [])))"

definition ws_onerror :: "UseWebSocketOptions \<Rightarrow> WebSocketState \<Rightarrow> WebSocketState \<times> WsEffect list" where
  "ws_onerror options s = (s, if onError options then [CallOnError] else [])"

definition ws_onclose :: "UseWebSocketOptions \<Rightarrow> WebSocketState \<Rightarrow> WebSocketState \<times> WsEffect list" where
  "ws_onclose options s =
     (let s1 = s\<lparr>connStatus := Closed\<rparr>
      in if taskStatusRef s1 \<noteq> Some Completed \<and> taskStatusRef s1 \<noteq> Some Failed
         then (if int (attemptsRef s1) < maxAttempts options
               then (s1\<lparr>attemptsRef := attemptsRef s1 + 1\<rparr>,
                     [SetTimeoutConnect (interval options * 2 ^ attemptsRef s1)])
               else (s1, []))
         else (s1, []))"

text \<open>
  The events the hook reacts to, and one turn of the event loop. An exception that
  leaves a handler is reported by the event loop and the hook's state stays as the
  handler left it; \<open>TimerFires\<close> is the timeout set by \<open>ws.onclose\<close> calling
  \<open>connect\<close>.
\<close>

datatype WsEvent = WsOpen | WsMessage MessageData | WsError | WsClose | TimerFires

definition ws_step ::
  "UseWebSocketOptions \<Rightarrow> string option \<Rightarrow> WsEvent \<Rightarrow> WebSocketState
     \<Rightarrow> WebSocketState \<times> WsEffect list" where
  "ws_step options taskId ev s =
     (case ev of
        WsOpen \<Rightarrow> ws_onopen s
      | WsMessage payload \<Rightarrow>
          (case ws_onmessage options payload s of
             Inl e \<Rightarrow> (s, [Uncaught e])
           | Inr r \<Rightarrow> r)
      | WsError \<Rightarrow> ws_onerror options s
      | WsClose \<Rightarrow> ws_onclose options s
      | TimerFires \<Rightarrow> connect taskId s)"

fun ws_run ::
  "UseWebSocketOptions \<Rightarrow> string option \<Rightarrow> WsEvent list \<Rightarrow> WebSocketState
     \<Rightarrow> WebSocketState \<times> WsEffect list" where
  "ws_run options taskId [] s = (s, [])"
| "ws_run options taskId (ev # evs) s =
     (let (s1, out1) = ws_step options taskId ev s;
          (s2, out2) = ws_run options taskId evs s1
      in (s2, out1 @ out2))"

fun isReconnect :: "WsEffect \<Rightarrow> bool" where
  "isReconnect (SetTimeoutConnect d) = True"
| "isReconnect e = False"

text \<open>Kinds of events, the number of closes in a run, and a snapshot for examples.\<close>

fun isSnapshotEvent :: "WsEvent \<Rightarrow> bool" where
  "isSnapshotEvent (WsMessage (Snapshot d)) = True"
| "isSnapshotEvent ev = False"

fun isOpenOrMessage :: "WsEvent \<Rightarrow> bool" where
  "isOpenOrMessage WsOpen = True"
| "isOpenOrMessage (WsMessage payload) = True"
| "isOpenOrMessage ev = False"

definition closes :: "WsEvent list \<Rightarrow> nat" where
  "closes evs = length (filter (\<lambda>ev. ev = WsClose) evs)"

definition exampleTask :: "TaskStatus \<Rightarrow> Task" where
  "exampleTask st =
     \<lparr>task_id = ''t1'', task_type = ''inference'', status = st, progress = None, result = None,
      task_error = None, created_at = ''2024-01-01T00:00:00Z'',
      updated_at = ''2024-01-01T00:00:05Z''\<rparr>"

section \<open>JSON texts (the library functions \<open>JSON.stringify\<close> and \<open>JSON.parse\<close>)\<close>

text \<open>
  The hooks call \<open>JSON.stringify\<close> and \<open>JSON.parse\<close> of the JavaScript library.
  This section models both after ECMA-262 (sections 25.5.1 and 25.5.2) on texts as lists
  of characters: \<open>stringifyValue\<close> writes a value without any white space, as
  \<open>JSON.stringify\<close> with one argument does, and \<open>parseText\<close> reads a text by the
  JSON grammar, with white space allowed around every token, and gives \<open>None\<close> where
  \<open>JSON.parse\<close> throws a \<open>SyntaxError\<close>.

  A number is a decimal: an integer mantissa and a count of digits after the point, which
  is also how it is written. Numbers written with an exponent are outside the model
  (\<open>JSON.stringify\<close> writes one only for a number below \<open>1e-6\<close> or from \<open>1e21\<close>
  on), and so are escapes \<open>\uXXXX\<close> above \<open>\u00FF\<close>, a character being a byte
  here: the parser refuses both. An object is the list of its properties in the order
  they are written.
\<close>

datatype Decimal = Decimal (mantissa: int) (fractionDigits: nat)

datatype json =
    JNull
  | JBool bool
  | JNumber Decimal
  | JString string
  | JArray "json list"
  | JObject "(string \<times> json) list"

text \<open>Characters by their code: digits, and the four white space characters of JSON.\<close>

definition code :: "char \<Rightarrow> nat" where
  "code c = of_char c"

definition isDigit :: "char \<Rightarrow> bool" where
  "isDigit c = (48 \<le> code c \<and> code c \<le> 57)"

definition isWhitespace :: "char \<Rightarrow> bool" where
  "isWhitespace c = (code c = 32 \<or> code c = 9 \<or> code c = 10 \<or> code c = 13)"

definition skipWhitespace :: "string \<Rightarrow> string" where
  "skipWhitespace s = dropWhile isWhitespace s"

subsection \<open>Writing\<close>

text \<open>
  A natural number in decimal without leading zeros, and in a fixed number of digits.
\<close>

fun natToString :: "nat \<Rightarrow> string" where
  "natToString n =
     (if n < 10 then [char_of (48 + n)]
      else natToString (n div 10) @ [char_of (48 + n mod 10)])"

declare natToString.simps [simp del]

fun fixedDigits :: "nat \<Rightarrow> nat \<Rightarrow> string" where
  "fixedDigits 0 k = []"
| "fixedDigits (Suc e) k = fixedDigits e (k div 10) @ [char_of (48 + k mod 10)]"

text \<open>
  A decimal: the sign, the integer part, and after a point the digits of the fraction
  when there are any.
\<close>

definition numberToText :: "Decimal \<Rightarrow> string" where
  "numberToText d =
     (let a = nat \<bar>mantissa d\<bar>; e = fractionDigits d
      in (if mantissa d < 0 then ''-'' else [])
         @ natToString (a div 10 ^ e)
         @ (if e = 0 then [] else CHR ''.'' # fixedDigits e (a mod 10 ^ e)))"

text \<open>
  \<open>QuoteJSONString\<close>: the quote and the backslash are escaped, the control characters
  have their short escape or \<open>\u00XX\<close> in lower case, every other character stands
  for itself.
\<close>

definition hexChar :: "nat \<Rightarrow> char" where
  "hexChar n = (if n < 10 then char_of (48 + n) else char_of (87 + n))"

definition escapeChar :: "char \<Rightarrow> string" where
  "escapeChar c =
     (if code c = 34 then [CHR 0x5C, CHR 0x22]
      else if code c = 92 then [CHR 0x5C, CHR 0x5C]
      else if code c = 8 then [CHR 0x5C, CHR ''b'']
      else if code c = 12 then [CHR 0x5C, CHR ''f'']
      else if code c = 10 then [CHR 0x5C, CHR ''n'']
      else if code c = 13 then [CHR 0x5C, CHR ''r'']
      else if code c = 9 then [CHR 0x5C, CHR ''t'']
      else if code c < 32
      then [CHR 0x5C, CHR ''u'', CHR ''0'', CHR ''0'', hexChar (code c div 16), hexChar (code c mod 16)]
      else [c])"

definition quoteString :: "string \<Rightarrow> string" where
  "quoteString s = CHR 0x22 # concat (map escapeChar s) @ [CHR 0x22]"

text \<open>
  \<open>SerializeJSONProperty\<close> with \<open>SerializeJSONArray\<close> and \<open>SerializeJSONObject\<close>,
  with an empty gap.
\<close>

fun stringifyValue :: "json \<Rightarrow> string"
  and stringifyElements :: "json list \<Rightarrow> string"
  and stringifyMembers :: "(string \<times> json) list \<Rightarrow> string" where
  "stringifyValue JNull = ''null''"
| "stringifyValue (JBool b) = (if b then ''true'' else ''false'')"
| "stringifyValue (JNumber d) = numberToText d"
| "stringifyValue (JString s) = quoteString s"
| "stringifyValue (JArray vs) = CHR ''['' # stringifyElements vs @ '']''"
| "stringifyValue (JObject ps) = CHR ''{'' # stringifyMembers ps @ ''}''"
| "stringifyElements [] = []"
| "stringifyElements (v # vs) =
     stringifyValue v @ (if vs = [] then [] else CHR '','' # stringifyElements vs)"
| "stringifyMembers [] = []"
| "stringifyMembers (p # ps) =
     quoteString (fst p) @ CHR '':'' # stringifyValue (snd p)
     @ (if ps = [] then [] else CHR '','' # stringifyMembers ps)"

subsection \<open>Reading\<close>

text \<open>
  A number: an optional minus, digits without a leading zero, and optionally a point and
  more digits.
\<close>

definition readNat :: "string \<Rightarrow> nat" where
  "readNat ds = foldl (\<lambda>a c. 10 * a + (code c - 48)) 0 ds"

definition parseNumber :: "string \<Rightarrow> (Decimal \<times> string) option" where
  "parseNumber s =
     (let negative = (s \<noteq> [] \<and> code (hd s) = 45);
          s1 = (if negative then tl s else s);
          whole = takeWhile isDigit s1;
          s2 = dropWhile isDigit s1
      in if whole = [] \<or> (1 < length whole \<and> code (hd whole) = 48) then None
         else if s2 \<noteq> [] \<and> code (hd s2) = 46
         then (let fraction = takeWhile isDigit (tl s2);
                   s3 = dropWhile isDigit (tl s2)
               in if fraction = [] then None
                  else Some (Decimal ((if negative then - 1 else 1) * int (readNat (whole @ fraction)))
                               (length fraction), s3))
         else Some (Decimal ((if negative then - 1 else 1) * int (readNat whole)) 0, s2))"

text \<open>
  A string after its opening quote, up to the closing quote: escapes are decoded, a raw
  control character is an error.
\<close>

definition hexValue :: "char \<Rightarrow> nat option" where
  "hexValue c =
     (if 48 \<le> code c \<and> code c \<le> 57 then Some (code c - 48)
      else if 97 \<le> code c \<and> code c \<le> 102 then Some (code c - 87)
      else if 65 \<le> code c \<and> code c \<le> 70 then Some (code c - 55)
      else None)"

definition unescape :: "char \<Rightarrow> char option" where
  "unescape e =
     (if code e = 34 then Some (CHR 0x22)
      else if code e = 92 then Some (CHR 0x5C)
      else if code e = 47 then Some (CHR ''/'')
      else if code e = 98 then Some (CHR 0x08)
      else if code e = 102 then Some (CHR 0x0C)
      else if code e = 110 then Some (CHR 0x0A)
      else if code e = 114 then Some (CHR 0x0D)
      else if code e = 116 then Some (CHR 0x09)
      else None)"

definition unicodeEscape :: "string \<Rightarrow> char option" where
  "unicodeEscape hs =
     (case map hexValue hs of
        [Some a, Some b, Some c, Some d] \<Rightarrow>
          if a = 0 \<and> b = 0 then Some (char_of (16 * c + d)) else None
      | _ \<Rightarrow> None)"

fun readString :: "string \<Rightarrow> (string \<times> string) option" where
  "readString [] = None"
| "readString (c # cs) =
     (if code c = 34 then Some ([], cs)
      else if code c = 92
      then (case cs of
              [] \<Rightarrow> None
            | e # cs1 \<Rightarrow>
                if code e = 117
                then (case unicodeEscape (take 4 cs1) of
                        None \<Rightarrow> None
                      | Some ch \<Rightarrow>
                          (case readString (drop 4 cs1) of
                             None \<Rightarrow> None
                           | Some (str, rest) \<Rightarrow> Some (ch # str, rest)))
                else (case unescape e of
                        None \<Rightarrow> None
                      | Some ch \<Rightarrow>
                          (case readString cs1 of
                             None \<Rightarrow> None
                           | Some (str, rest) \<Rightarrow> Some (ch # str, rest))))
      else if code c < 32 then None
      else (case readString cs of
              None \<Rightarrow> None
            | Some (str, rest) \<Rightarrow> Some (c # str, rest)))"

text \<open>
  A value, the elements of a non-empty array up to its bracket, and the members of a
  non-empty object up to its brace. The functions call each other on the rest of the text
  that the call before has left, so they recurse on a bound for the depth of the calls;
  \<open>parseText\<close> starts with one more than the length of the text, which is enough
  for every text that \<open>stringifyValue\<close> writes (lemma \<open>parse_stringify_all\<close>).
\<close>

fun parseValue :: "nat \<Rightarrow> string \<Rightarrow> (json \<times> string) option"
  and parseElements :: "nat \<Rightarrow> string \<Rightarrow> (json list \<times> string) option"
  and parseMembers :: "nat \<Rightarrow> string \<Rightarrow> ((string \<times> json) list \<times> string) option" where
  "parseValue 0 s = None"
| "parseValue (Suc fuel) s =
     (case skipWhitespace s of
        [] \<Rightarrow> None
      | c # cs \<Rightarrow>
          if code c = 34
          then (case readString cs of
                  None \<Rightarrow> None
                | Some (str, rest) \<Rightarrow> Some (JString str, rest))
          else if code c = 91
          then (case skipWhitespace cs of
                  [] \<Rightarrow> None
                | c1 # cs1 \<Rightarrow>
                    if code c1 = 93 then Some (JArray [], cs1)
                    else (case parseElements fuel cs of
                            None \<Rightarrow> None
                          | Some (vs, rest) \<Rightarrow> Some (JArray vs, rest)))
          else if code c = 123
          then (case skipWhitespace cs of
                  [] \<Rightarrow> None
                | c1 # cs1 \<Rightarrow>
                    if code c1 = 125 then Some (JObject [], cs1)
                    else (case parseMembers fuel cs of
                            None \<Rightarrow> None
                          | Some (ps, rest) \<Rightarrow> Some (JObject ps, rest)))
          else if take 4 (c # cs) = ''null'' then Some (JNull, drop 3 cs)
          else if take 4 (c # cs) = ''true'' then Some (JBool True, drop 3 cs)
          else if take 5 (c # cs) = ''false'' then Some (JBool False, drop 4 cs)
          else (case parseNumber (c # cs) of
                  None \<Rightarrow> None
                | Some (d, rest) \<Rightarrow> Some (JNumber d, rest)))"
| "parseElements 0 s = None"
| "parseElements (Suc fuel) s =
     (case parseValue fuel s of
        None \<Rightarrow> None
      | Some (v, rest) \<Rightarrow>
          (case skipWhitespace rest of
             [] \<Rightarrow> None
           | c # cs \<Rightarrow>
               if code c = 93 then Some ([v], cs)
               else if code c = 44
               then (case parseElements fuel cs of
                       None \<Rightarrow> None
                     | Some (vs, rest1) \<Rightarrow> Some (v # vs, rest1))
               else None))"
| "parseMembers 0 s = None"
| "parseMembers (Suc fuel) s =
     (case skipWhitespace s of
        [] \<Rightarrow> None
      | q # cs \<Rightarrow>
          if code q \<noteq> 34 then None
          else (case readString cs of
                  None \<Rightarrow> None
                | Some (key, rest) \<Rightarrow>
                    (case skipWhitespace rest of
                       [] \<Rightarrow> None
                     | c # cs1 \<Rightarrow>
                         if code c \<noteq> 58 then None
                         else (case parseValue fuel cs1 of
                                 None \<Rightarrow> None
                               | Some (v, rest1) \<Rightarrow>
                                   (case skipWhitespace rest1 of
                                      [] \<Rightarrow> None
                                    | c2 # cs2 \<Rightarrow>
                                        if code c2 = 125 then Some ([(key, v)], cs2)
                                        else if code c2 = 44
                                        then (case parseMembers fuel cs2 of
                                                None \<Rightarrow> None
                                              | Some (ps, rest2) \<Rightarrow> Some ((key, v) # ps, rest2))
                                        else None)))))"

definition parseText :: "string \<Rightarrow> json option" where
  "parseText s =
     (case parseValue (Suc (length s)) s of
        None \<Rightarrow> None
      | Some (v, rest) \<Rightarrow> if skipWhitespace rest = [] then Some v else None)"

text \<open>
  Where a number can end: at the end of the text, or before a character that is neither a
  digit nor a point.
\<close>

definition numberEnds :: "string \<Rightarrow> bool" where
  "numberEnds rest = (rest = [] \<or> (\<not> isDigit (hd rest) \<and> code (hd rest) \<noteq> 46))"

section \<open>Auto-save (frontend/src/hooks/useAutoSave.ts)\<close>

text \<open>
  The payload of a save is a list of \<open>TranscriptionLine\<close> (\<open>types/index.ts\<close>). The
  fields \<open>id\<close>, \<open>text\<close> and \<open>notes\<close> are \<open>line_id\<close>, \<open>line_text\<close> and
  \<open>line_notes\<close> here.
\<close>

record TranscriptionLine =
  line_id :: int
  line_number :: int
  display_order :: "int option"
  line_text :: "string option"
  confidence :: "Decimal option"
  line_notes :: "string option"

text \<open>
  The object written to \<open>localStorage\<close>: the lines and the time of the write as the
  text that \<open>toISOString\<close> gives.
\<close>

record BackupRecord =
  lines :: "TranscriptionLine list"
  timestamp :: string

text \<open>
  The hook's functions take \<open>JSON.stringify\<close> and \<open>JSON.parse\<close>, on backup records,
  as a parameter: what does not depend on the serialisation is stated for every such pair.
  \<open>parse\<close> gives \<open>None\<close> where \<open>JSON.parse\<close> throws. The pair of the library is
  \<open>JSON\<close> below.
\<close>

record Json =
  stringify :: "BackupRecord \<Rightarrow> string"
  parse :: "string \<Rightarrow> BackupRecord option"

text \<open>
  A line and a backup record as JavaScript objects: a property for every field, in the
  order of the interface, and no property for an optional field that is undefined.
\<close>

fun optionalProperty :: "string \<Rightarrow> json option \<Rightarrow> (string \<times> json) list" where
  "optionalProperty k None = []"
| "optionalProperty k (Some v) = [(k, v)]"

definition lineToJS :: "TranscriptionLine \<Rightarrow> json" where
  "lineToJS l =
     JObject ([(''id'', JNumber (Decimal (line_id l) 0)),
               (''line_number'', JNumber (Decimal (line_number l) 0))]
              @ optionalProperty ''display_order''
                  (map_option (\<lambda>n. JNumber (Decimal n 0)) (display_order l))
              @ optionalProperty ''text'' (map_option JString (line_text l))
              @ optionalProperty ''confidence'' (map_option JNumber (confidence l))
              @ optionalProperty ''notes'' (map_option JString (line_notes l)))"

definition backupToJS :: "BackupRecord \<Rightarrow> json" where
  "backupToJS r =
     JObject [(''lines'', JArray (map lineToJS (lines r))), (''timestamp'', JString (timestamp r))]"

text \<open>
  The other way: a parsed value seen at the type of a backup record, as the caller of
  \<open>getBackup\<close> reads \<open>backup.lines\<close> and \<open>backup.timestamp\<close>. Of a property written
  twice the last one counts. A value that is not of this shape has no typed view: it is
  \<open>None\<close> here, where the source hands the value on as it is; the hook itself writes
  only backup records under its key.
\<close>

fun property :: "(string \<times> json) list \<Rightarrow> string \<Rightarrow> json option" where
  "property [] k = None"
| "property (p # ps) k =
     (case property ps k of
        Some v \<Rightarrow> Some v
      | None \<Rightarrow> if fst p = k then Some (snd p) else None)"

fun asInteger :: "json \<Rightarrow> int option" where
  "asInteger (JNumber d) = (if fractionDigits d = 0 then Some (mantissa d) else None)"
| "asInteger v = None"

fun asNumber :: "json \<Rightarrow> Decimal option" where
  "asNumber (JNumber d) = Some d"
| "asNumber v = None"

fun asString :: "json \<Rightarrow> string option" where
  "asString (JString s) = Some s"
| "asString v = None"

fun required :: "(json \<Rightarrow> 'a option) \<Rightarrow> json option \<Rightarrow> 'a option" where
  "required as None = None"
| "required as (Some v) = as v"

fun optional :: "(json \<Rightarrow> 'a option) \<Rightarrow> json option \<Rightarrow> 'a option option" where
  "optional as None = Some None"
| "optional as (Some v) = map_option Some (as v)"

fun lineFromJS :: "json \<Rightarrow> TranscriptionLine option" where
  "lineFromJS (JObject ps) =
     Option.bind (required asInteger (property ps ''id'')) (\<lambda>i.
     Option.bind (required asInteger (property ps ''line_number'')) (\<lambda>n.
     Option.bind (optional asInteger (property ps ''display_order'')) (\<lambda>d.
     Option.bind (optional asString (property ps ''text'')) (\<lambda>t.
     Option.bind (optional asNumber (property ps ''confidence'')) (\<lambda>c.
     Option.bind (optional asString (property ps ''notes'')) (\<lambda>nt.
       Some \<lparr>line_id = i, line_number = n, display_order = d, line_text = t,
             confidence = c, line_notes = nt\<rparr>))))))"
| "lineFromJS v = None"

fun backupFromJS :: "json \<Rightarrow> BackupRecord option" where
  "backupFromJS (JObject ps) =
     (case property ps ''lines'' of
        Some (JArray vs) \<Rightarrow>
          Option.bind (those (map lineFromJS vs)) (\<lambda>ls.
          Option.bind (required asString (property ps ''timestamp'')) (\<lambda>ts.
            Some \<lparr>lines = ls, timestamp = ts\<rparr>))
      | _ \<Rightarrow> None)"
| "backupFromJS v = None"

text \<open>\<open>JSON.stringify\<close> and \<open>JSON.parse\<close> on backup records.\<close>

definition JSON :: Json where
  "JSON =
     \<lparr>stringify = (\<lambda>r. stringifyValue (backupToJS r)),
      parse = (\<lambda>t. case parseText t of None \<Rightarrow> None | Some v \<Rightarrow> backupFromJS v)\<rparr>"

text \<open>
  What \<open>onSave\<close> can do once called: its promise resolves, or rejects with a thrown
  value, which is an \<open>Error\<close> with a message or anything else. A promise returned by
  the hook's own functions is fulfilled or rejected.
\<close>

datatype Thrown = ErrorObject string | OtherValue

datatype Outcome = Resolves | Rejects Thrown

datatype PromiseState = Fulfilled | RejectedWith Thrown

text \<open>The calls that leave the hook, in the order they are made.\<close>

datatype SaveEffect =
    SetItem string string
  | RemoveItem string
  | DebounceStart nat
  | OnSave "TranscriptionLine list"
  | ConsoleError Thrown

text \<open>
  The hook's state: the four \<open>useState\<close> cells, the browser's \<open>localStorage\<close>, the
  clock read by \<open>new Date()\<close>, and the timer of the debounced function. Lodash's
  \<open>debounce\<close> with default options invokes on the trailing edge only: every call
  stores its arguments and restarts the timer, \<open>cancel\<close> drops the timer, and when the
  timer runs out the function is invoked once with the arguments stored last. The timer
  is the remaining time together with those arguments. \<open>localStorage\<close> is taken without
  a quota: \<open>setItem\<close> does not throw.
\<close>

record AutoSaveState =
  lastSaved :: "nat option"
  isSaving :: bool
  hasUnsavedChanges :: bool
  error :: "string option"
  localStorage :: "string \<rightharpoonup> string"
  timer :: "(nat \<times> TranscriptionLine list) option"
  now :: nat
  trace :: "SaveEffect list"

definition initialAutoSaveState :: AutoSaveState where
  "initialAutoSaveState =
     \<lparr>lastSaved = None, isSaving = False, hasUnsavedChanges = False, error = None,
      localStorage = Map.empty, timer = None, now = 0, trace = []\<rparr>"

record UseAutoSaveOptions =
  pageId :: int
  debounceMs :: "nat option"

definition wait :: "UseAutoSaveOptions \<Rightarrow> nat" where
  "wait options = (case debounceMs options of None \<Rightarrow> 3000 | Some ms \<Rightarrow> ms)"

text \<open>The template string \<open>maatik_backup_${pageId}\<close>, with the number in decimal.\<close>

definition numberToString :: "int \<Rightarrow> string" where
  "numberToString i = (if i < 0 then CHR ''-'' # natToString (nat (- i)) else natToString (nat i))"

definition backupKey :: "UseAutoSaveOptions \<Rightarrow> string" where
  "backupKey options = ''maatik_backup_'' @ numberToString (pageId options)"

text \<open>
  \<open>Date.prototype.toISOString\<close> of the clock, a number of milliseconds since the
  epoch: \<open>YYYY-MM-DDTHH:mm:ss.sssZ\<close> in UTC, the year in six digits after a plus sign
  from the year 10000 on. The day count is turned into a date of the Gregorian calendar
  by counting from 1 March 0000 in eras of 400 years (146097 days).
\<close>

definition toISOString :: "nat \<Rightarrow> string" where
  "toISOString ms =
     (let days = ms div 86400000;
          msOfDay = ms mod 86400000;
          z = days + 719468;
          era = z div 146097;
          dayOfEra = z mod 146097;
          yearOfEra =
            (dayOfEra - dayOfEra div 1460 + dayOfEra div 36524 - dayOfEra div 146096) div 365;
          dayOfYear = dayOfEra - (365 * yearOfEra + yearOfEra div 4 - yearOfEra div 100);
          mp = (5 * dayOfYear + 2) div 153;
          day = dayOfYear - (153 * mp + 2) div 5 + 1;
          month = (if mp < 10 then mp + 3 else mp - 9);
          year = yearOfEra + era * 400 + (if month \<le> 2 then 1 else 0)
      in (if year \<le> 9999 then fixedDigits 4 year else CHR ''+'' # fixedDigits 6 year)
         @ CHR ''-'' # fixedDigits 2 month
         @ CHR ''-'' # fixedDigits 2 day
         @ CHR ''T'' # fixedDigits 2 (msOfDay div 3600000)
         @ CHR '':'' # fixedDigits 2 (msOfDay div 60000 mod 60)
         @ CHR '':'' # fixedDigits 2 (msOfDay div 1000 mod 60)
         @ CHR ''.'' # fixedDigits 3 (msOfDay mod 1000)
         @ ''Z'')"

definition saveToLocalStorage ::
  "Json \<Rightarrow> UseAutoSaveOptions \<Rightarrow> TranscriptionLine list \<Rightarrow> AutoSaveState \<Rightarrow> AutoSaveState" where
  "saveToLocalStorage json options ls s =
     (let item = stringify json \<lparr>lines = ls, timestamp = toISOString (now s)\<rparr>
      in s\<lparr>localStorage := (localStorage s)(backupKey options \<mapsto> item),
           hasUnsavedChanges := True,
           trace := trace s @ [SetItem (backupKey options) item]\<rparr>)"

text \<open>
  \<open>saveToServer\<close> is asynchronous. Up to the \<open>await\<close> it sets the two cells and calls
  \<open>onSave\<close>; when the promise of \<open>onSave\<close> settles, the rest of the \<open>try\<close>, or the
  \<open>catch\<close>, runs, then the \<open>finally\<close>. The \<open>catch\<close> does not throw again, so the
  promise of \<open>saveToServer\<close> is fulfilled on both paths.
\<close>

definition saveToServer_call :: "TranscriptionLine list \<Rightarrow> AutoSaveState \<Rightarrow> AutoSaveState" where
  "saveToServer_call ls s =
     s\<lparr>isSaving := True, error := None, trace := trace s @ [OnSave ls]\<rparr>"

definition saveToServer_settle ::
  "UseAutoSaveOptions \<Rightarrow> Outcome \<Rightarrow> AutoSaveState \<Rightarrow> PromiseState \<times> AutoSaveState" where
  "saveToServer_settle options outcome s =
     (case outcome of
        Resolves \<Rightarrow>
          (Fulfilled,
           s\<lparr>localStorage := (localStorage s)(backupKey options := None),
             lastSaved := Some (now s),
             hasUnsavedChanges := False,
             isSaving := False,
             trace := trace s @ [RemoveItem (backupKey options)]\<rparr>)
      | Rejects err \<Rightarrow>
          (Fulfilled,
           s\<lparr>error := Some (case err of ErrorObject msg \<Rightarrow> msg | OtherValue \<Rightarrow> ''Save failed''),
             isSaving := False,
             trace := trace s @ [ConsoleError err]\<rparr>))"

definition debouncedSave ::
  "UseAutoSaveOptions \<Rightarrow> TranscriptionLine list \<Rightarrow> AutoSaveState \<Rightarrow> AutoSaveState" where
  "debouncedSave options ls s =
     s\<lparr>timer := Some (wait options, ls), trace := trace s @ [DebounceStart (wait options)]\<rparr>"

definition debouncedSave_cancel :: "AutoSaveState \<Rightarrow> AutoSaveState" where
  "debouncedSave_cancel s = s\<lparr>timer := None\<rparr>"

definition save ::
  "Json \<Rightarrow> UseAutoSaveOptions \<Rightarrow> TranscriptionLine list \<Rightarrow> AutoSaveState \<Rightarrow> AutoSaveState" where
  "save json options ls s = debouncedSave options ls (saveToLocalStorage json options ls s)"

text \<open>
  \<open>forceSave\<close>: \<open>cancel\<close>, then \<open>await saveToServer(lines)\<close>. Its promise settles as the
  promise of \<open>saveToServer\<close> does.
\<close>

definition forceSave_call :: "TranscriptionLine list \<Rightarrow> AutoSaveState \<Rightarrow> AutoSaveState" where
  "forceSave_call ls s = saveToServer_call ls (debouncedSave_cancel s)"

definition forceSave_settle ::
  "UseAutoSaveOptions \<Rightarrow> Outcome \<Rightarrow> AutoSaveState \<Rightarrow> PromiseState \<times> AutoSaveState" where
  "forceSave_settle options outcome s = saveToServer_settle options outcome s"

definition getBackup :: "Json \<Rightarrow> UseAutoSaveOptions \<Rightarrow> AutoSaveState \<Rightarrow> BackupRecord option" where
  "getBackup json options s =
     (case localStorage s (backupKey options) of
        None \<Rightarrow> None
      | Some backup \<Rightarrow>
          if backup = [] then None
          else (case parse json backup of None \<Rightarrow> None | Some r \<Rightarrow> Some r))"

definition clearBackup :: "UseAutoSaveOptions \<Rightarrow> AutoSaveState \<Rightarrow> AutoSaveState" where
  "clearBackup options s =
     s\<lparr>localStorage := (localStorage s)(backupKey options := None),
       trace := trace s @ [RemoveItem (backupKey options)]\<rparr>"

text \<open>
  Time passing by \<open>d\<close> milliseconds: the clock advances; a timer with at most \<open>d\<close>
  left runs out, and the debounced function calls
  \<open>saveToServerRef.current(lines)\<close> with the arguments stored last.
\<close>

definition elapse :: "nat \<Rightarrow> AutoSaveState \<Rightarrow> AutoSaveState" where
  "elapse d s =
     (case timer s of
        None \<Rightarrow> s\<lparr>now := now s + d\<rparr>
      | Some (remaining, ls) \<Rightarrow>
          if remaining \<le> d
          then saveToServer_call ls (s\<lparr>timer := None, now := now s + d\<rparr>)
          else s\<lparr>timer := Some (remaining - d, ls), now := now s + d\<rparr>)"

text \<open>The events of an editing session and one turn of the event loop.\<close>

datatype SaveEvent =
    Save "TranscriptionLine list"
  | ForceSave "TranscriptionLine list"
  | Elapse nat
  | Settle Outcome
  | ClearBackup
  | Unmount

definition autosave_step ::
  "Json \<Rightarrow> UseAutoSaveOptions \<Rightarrow> SaveEvent \<Rightarrow> AutoSaveState \<Rightarrow> AutoSaveState" where
  "autosave_step json options ev s =
     (case ev of
        Save ls \<Rightarrow> save json options ls s
      | ForceSave ls \<Rightarrow> forceSave_call ls s
      | Elapse d \<Rightarrow> elapse d s
      | Settle outcome \<Rightarrow> snd (saveToServer_settle options outcome s)
      | ClearBackup \<Rightarrow> clearBackup options s
      | Unmount \<Rightarrow> debouncedSave_cancel s)"

fun autosave_run ::
  "Json \<Rightarrow> UseAutoSaveOptions \<Rightarrow> SaveEvent list \<Rightarrow> AutoSaveState \<Rightarrow> AutoSaveState" where
  "autosave_run json options [] s = s"
| "autosave_run json options (ev # evs) s =
     autosave_run json options evs (autosave_step json options ev s)"

text \<open>
  A burst of saves: each payload but the last is followed by a pause before the next
  call.
\<close>

fun burst :: "(TranscriptionLine list \<times> nat) list \<Rightarrow> TranscriptionLine list \<Rightarrow> SaveEvent list" where
  "burst [] lastPayload = [Save lastPayload]"
| "burst ((p, gap) # rest) lastPayload = Save p # Elapse gap # burst rest lastPayload"

fun isOnSave :: "SaveEffect \<Rightarrow> bool" where
  "isOnSave (OnSave ls) = True"
| "isOnSave e = False"

fun isSetItem :: "SaveEffect \<Rightarrow> bool" where
  "isSetItem (SetItem k v) = True"
| "isSetItem e = False"

fun isDebounceStart :: "SaveEffect \<Rightarrow> bool" where
  "isDebounceStart (DebounceStart ms) = True"
| "isDebounceStart e = False"

text \<open>The effects emitted between two states of one run.\<close>

definition newEffects :: "AutoSaveState \<Rightarrow> AutoSaveState \<Rightarrow> SaveEffect list" where
  "newEffects s s' = drop (length (trace s)) (trace s')"

text \<open>Values for examples: a page and a line.\<close>

definition examplePage :: UseAutoSaveOptions where
  "examplePage = \<lparr>pageId = 7, debounceMs = None\<rparr>"

definition exampleLine :: "string \<Rightarrow> TranscriptionLine" where
  "exampleLine t =
     \<lparr>line_id = 1, line_number = 1, display_order = None, line_text = Some t,
      confidence = Some (Decimal 95 2), line_notes = None\<rparr>"

section \<open>Properties of the range selection\<close>

subsection \<open>\<open>indexOf\<close> and the range loop\<close>

lemma indexOf_absent: "x \<notin> set xs \<Longrightarrow> indexOf xs x = - 1"
  by (induction xs) (auto simp: Let_def)

lemma indexOf_present: "x \<in> set xs \<Longrightarrow> indexOf xs x = int (firstPos xs x)"
  by (induction xs) (auto simp: Let_def firstPos_def)

lemma firstPos_less: "x \<in> set xs \<Longrightarrow> firstPos xs x < length xs"
  unfolding firstPos_def
  by (induction xs) auto

lemma indexOf_bounds:
  "indexOf xs x = - 1 \<or> (0 \<le> indexOf xs x \<and> indexOf xs x < int (length xs))"
proof (cases "x \<in> set xs")
  case True
  then show ?thesis using firstPos_less [of x xs] by (simp add: indexOf_present)
next
  case False
  then show ?thesis by (simp add: indexOf_absent)
qed

lemma addRange_slice:
  "lo \<le> hi + 1 \<Longrightarrow> hi < length xs \<Longrightarrow>
   addRange xs (int lo) (int hi) acc = acc \<union> set (take (hi + 1 - lo) (drop lo xs))"
proof (induction "hi + 1 - lo" arbitrary: lo acc)
  case 0
  then have "lo = hi + 1" by simp
  then show ?case by (simp add: addRange.simps)
next
  case (Suc n)
  then have lo: "lo \<le> hi" "lo < length xs" by auto
  have n: "n = hi + 1 - Suc lo" using Suc.hyps(2) by simp
  have step: "addRange xs (int lo) (int hi) acc
                = addRange xs (int (Suc lo)) (int hi) (insert (xs ! lo) acc)"
    using lo by (subst addRange.simps) (simp add: add.commute)
  have "addRange xs (int (Suc lo)) (int hi) (insert (xs ! lo) acc)
          = insert (xs ! lo) acc \<union> set (take (hi + 1 - Suc lo) (drop (Suc lo) xs))"
    using Suc.hyps(1) [OF n] lo Suc.prems by simp
  moreover have "take (hi + 1 - lo) (drop lo xs)
                   = xs ! lo # take (hi + 1 - Suc lo) (drop (Suc lo) xs)"
    using lo by (simp add: Suc_diff_le Cons_nth_drop_Suc [symmetric])
  ultimately show ?case using step by simp
qed

lemma addRange_between:
  assumes "p < length xs" and "q < length xs"
  shows "addRange xs (if int p < int q then int p else int q)
           (if int p < int q then int q else int p) {}
         = set (take (max p q + 1 - min p q) (drop (min p q) xs))"
proof (cases "p < q")
  case True
  then show ?thesis
    using addRange_slice [of p q xs "{}"] assms by (simp add: min_def max_def)
next
  case False
  then have "q \<le> p" by simp
  then show ?thesis
    using addRange_slice [of q p xs "{}"] assms False by (simp add: min_def max_def)
qed

subsection \<open>Shift+click with a resolvable anchor\<close>

text \<open>
  C7. With the shift key down, an anchor \<open>a\<close> set, and both \<open>a\<close> and the clicked id
  \<open>x\<close> in \<open>orderedIds\<close>, the selection becomes exactly the elements of
  \<open>orderedIds\<close> from the smaller to the larger of the two first positions, both
  included; the anchor stays \<open>a\<close>; and the selection is the same when \<open>x\<close> is the
  anchor and \<open>a\<close> is clicked. The meta and ctrl keys do not matter.
\<close>

theorem range_click_selects_slice:
  assumes "shiftKey event" and "anchorId prev = Some a"
    and "a \<in> set orderedIds" and "x \<in> set orderedIds"
  shows "selectedIds (onItemClick orderedIds x event prev) =
           set (take (max (firstPos orderedIds a) (firstPos orderedIds x) + 1
                       - min (firstPos orderedIds a) (firstPos orderedIds x))
                  (drop (min (firstPos orderedIds a) (firstPos orderedIds x)) orderedIds))
       \<and> anchorId (onItemClick orderedIds x event prev) = Some a
       \<and> selectedIds (onItemClick orderedIds x event prev) =
         selectedIds (onItemClick orderedIds a event (prev\<lparr>anchorId := Some x\<rparr>))"
proof -
  let ?pa = "firstPos orderedIds a" and ?px = "firstPos orderedIds x"
  have ia: "indexOf orderedIds a = int ?pa" and ix: "indexOf orderedIds x = int ?px"
    using assms by (simp_all add: indexOf_present)
  have ba: "?pa < length orderedIds" and bx: "?px < length orderedIds"
    using assms by (simp_all add: firstPos_less)
  have 1: "selectedIds (onItemClick orderedIds x event prev) =
           set (take (max ?pa ?px + 1 - min ?pa ?px) (drop (min ?pa ?px) orderedIds))"
    using assms(1,2) addRange_between [OF ba bx] by (simp add: onItemClick_def Let_def ia ix)
  have 2: "anchorId (onItemClick orderedIds x event prev) = Some a"
    using assms(1,2) by (simp add: onItemClick_def Let_def ia ix)
  have "selectedIds (onItemClick orderedIds a event (prev\<lparr>anchorId := Some x\<rparr>)) =
           set (take (max ?px ?pa + 1 - min ?px ?pa) (drop (min ?px ?pa) orderedIds))"
    using assms(1) addRange_between [OF bx ba] by (simp add: onItemClick_def Let_def ia ix)
  with 1 have 3: "selectedIds (onItemClick orderedIds x event prev) =
         selectedIds (onItemClick orderedIds a event (prev\<lparr>anchorId := Some x\<rparr>))"
    by (simp add: max.commute min.commute)
  from 1 2 3 show ?thesis by blast
qed

text \<open>
  The example of the specification on \<open>[1, 2, 3, 4, 5]\<close>: anchor \<open>2\<close>, shift+click on
  \<open>4\<close>.
\<close>

theorem range_click_selects_slice_witness:
  "shiftKey shiftClick \<and> anchorId \<lparr>selectedIds = {2::nat}, anchorId = Some 2\<rparr> = Some 2
   \<and> 2 \<in> set [1, 2, 3, 4, 5::nat] \<and> 4 \<in> set [1, 2, 3, 4, 5::nat]
   \<and> selectedIds (onItemClick [1, 2, 3, 4, 5] 4 shiftClick \<lparr>selectedIds = {2::nat}, anchorId = Some 2\<rparr>)
       = {2, 3, 4}
   \<and> anchorId (onItemClick [1, 2, 3, 4, 5] 4 shiftClick \<lparr>selectedIds = {2::nat}, anchorId = Some 2\<rparr>)
       = Some 2"
proof -
  have h1: "shiftKey shiftClick" by (simp add: shiftClick_def)
  have h2: "anchorId \<lparr>selectedIds = {2::nat}, anchorId = Some 2\<rparr> = Some 2" by simp
  have h3: "2 \<in> set [1, 2, 3, 4, 5::nat]" by simp
  have h4: "4 \<in> set [1, 2, 3, 4, 5::nat]" by simp
  have "set (take (max (firstPos [1, 2, 3, 4, 5::nat] 2) (firstPos [1, 2, 3, 4, 5::nat] 4) + 1
                    - min (firstPos [1, 2, 3, 4, 5::nat] 2) (firstPos [1, 2, 3, 4, 5::nat] 4))
               (drop (min (firstPos [1, 2, 3, 4, 5::nat] 2) (firstPos [1, 2, 3, 4, 5::nat] 4))
                  [1, 2, 3, 4, 5::nat])) = {2, 3, 4}"
    by (simp add: firstPos_def numeral_3_eq_3)
  with range_click_selects_slice [OF h1 h2 h3 h4] h1 h3 h4 show ?thesis
    by simp
qed

subsection \<open>Shift+click without a usable anchor\<close>

text \<open>
  Where the fallback to a plain click does hold: the anchor is set but it or the clicked
  id is not in \<open>orderedIds\<close> (whatever the other modifiers), or the anchor is unset and
  neither meta nor ctrl is down.
\<close>

lemma shift_click_fallback:
  assumes "shiftKey event"
    and "(anchorId prev = Some a \<and> (a \<notin> set orderedIds \<or> x \<notin> set orderedIds))
         \<or> (anchorId prev = None \<and> \<not> metaKey event \<and> \<not> ctrlKey event)"
  shows "onItemClick orderedIds x event prev = \<lparr>selectedIds = {x}, anchorId = Some x\<rparr>"
  using assms by (auto simp: onItemClick_def Let_def indexOf_absent)

text \<open>
  C8. The claim: a shift+click with the anchor unset, or with the anchor or the clicked
  id missing from \<open>orderedIds\<close>, acts as a plain click (selection \<open>{id}\<close>, anchor
  \<open>id\<close>), also when the toggle modifier is down. The code at an unset anchor with ctrl
  and shift down: the shift branch is skipped, the meta/ctrl branch toggles the id and
  leaves the anchor null. Here the id \<open>2\<close> is selected, so it is removed and nothing is
  selected, where a plain click gives \<open>{2}\<close> with anchor \<open>2\<close>.
\<close>

theorem ctrl_shift_click_unset_anchor_toggles:
  "onItemClick [1, 2, 3::nat] 2 ctrlShiftClick \<lparr>selectedIds = {2}, anchorId = None\<rparr>
     = \<lparr>selectedIds = {}, anchorId = None\<rparr>
   \<and> onItemClick [1, 2, 3::nat] 2 plainClick \<lparr>selectedIds = {2}, anchorId = None\<rparr>
     = \<lparr>selectedIds = {2}, anchorId = Some 2\<rparr>"
  by (simp add: onItemClick_def ctrlShiftClick_def plainClick_def)

subsection \<open>Ctrl/Cmd+click\<close>

text \<open>
  C10. A click with meta or ctrl down and shift up flips the membership of the clicked
  id \<open>x\<close>, leaves the membership of every other id and the anchor as they were, and a
  second such click on \<open>x\<close> gives back the state before the first.
\<close>

theorem toggle_click_flips_one:
  assumes "\<not> shiftKey event" and "metaKey event \<or> ctrlKey event"
  shows "(x \<in> selectedIds (onItemClick orderedIds x event prev) \<longleftrightarrow> x \<notin> selectedIds prev)
       \<and> (\<forall>y. y \<noteq> x \<longrightarrow>
            (y \<in> selectedIds (onItemClick orderedIds x event prev) \<longleftrightarrow> y \<in> selectedIds prev))
       \<and> anchorId (onItemClick orderedIds x event prev) = anchorId prev
       \<and> onItemClick orderedIds x event (onItemClick orderedIds x event prev) = prev"
  using assms by (cases prev) (auto simp: onItemClick_def Let_def insert_absorb)

text \<open>
  The toggled id is the anchor: it leaves the selection, the anchor stays, and the second
  click brings it back.
\<close>

theorem toggle_click_flips_one_witness:
  "\<not> shiftKey ctrlClick \<and> (metaKey ctrlClick \<or> ctrlKey ctrlClick)
   \<and> onItemClick [1, 2, 3::nat] 1 ctrlClick \<lparr>selectedIds = {1, 3}, anchorId = Some 1\<rparr>
       = \<lparr>selectedIds = {3}, anchorId = Some 1\<rparr>
   \<and> onItemClick [1, 2, 3::nat] 1 ctrlClick
        (onItemClick [1, 2, 3::nat] 1 ctrlClick \<lparr>selectedIds = {1, 3}, anchorId = Some 1\<rparr>)
       = \<lparr>selectedIds = {1, 3}, anchorId = Some 1\<rparr>"
proof -
  have h1: "\<not> shiftKey ctrlClick" by (simp add: ctrlClick_def)
  have h2: "metaKey ctrlClick \<or> ctrlKey ctrlClick" by (simp add: ctrlClick_def)
  have "onItemClick [1, 2, 3::nat] 1 ctrlClick \<lparr>selectedIds = {1, 3}, anchorId = Some 1\<rparr>
       = \<lparr>selectedIds = {3}, anchorId = Some 1\<rparr>"
    by (auto simp: onItemClick_def ctrlClick_def)
  with toggle_click_flips_one [OF h1 h2, of "1::nat" "[1, 2, 3]"
         "\<lparr>selectedIds = {1, 3}, anchorId = Some 1\<rparr>"] h1 h2
  show ?thesis by simp
qed

section \<open>Properties of the push transport\<close>

subsection \<open>Runs of events\<close>

lemma ws_run_Cons:
  "fst (ws_run options taskId (ev # evs) s)
     = fst (ws_run options taskId evs (fst (ws_step options taskId ev s)))"
  "snd (ws_run options taskId (ev # evs) s)
     = snd (ws_step options taskId ev s)
       @ snd (ws_run options taskId evs (fst (ws_step options taskId ev s)))"
  by (simp_all add: case_prod_beta)

lemma ws_run_snoc:
  "fst (ws_run options taskId (evs @ [ev]) s)
     = fst (ws_step options taskId ev (fst (ws_run options taskId evs s)))"
proof (induction evs arbitrary: s)
  case Nil
  show ?case by (simp add: case_prod_beta)
next
  case (Cons e evs)
  show ?case using Cons.IH [of "fst (ws_step options taskId e s)"]
    by (simp add: case_prod_beta)
qed

lemma ws_step_no_snapshot:
  assumes "\<not> isSnapshotEvent ev"
  shows "taskData (fst (ws_step options taskId ev s)) = taskData s"
    and "taskStatusRef (fst (ws_step options taskId ev s)) = taskStatusRef s"
  using assms
  by (cases ev; cases taskId;
      auto simp: ws_step_def ws_onopen_def ws_onmessage_def ws_onerror_def ws_onclose_def
                 connect_def Let_def split: MessageData.splits)+

lemma ws_step_terminal_no_reconnect:
  assumes "isTerminal (taskStatusRef s)" and "\<not> isSnapshotEvent ev"
  shows "filter isReconnect (snd (ws_step options taskId ev s)) = []"
  using assms
  by (cases ev; cases taskId;
      auto simp: ws_step_def ws_onopen_def ws_onmessage_def ws_onerror_def ws_onclose_def
                 connect_def Let_def isTerminal_def split: MessageData.splits)

lemma ws_run_terminal:
  assumes "isTerminal (taskStatusRef s)" and "\<forall>ev \<in> set evs. \<not> isSnapshotEvent ev"
  shows "taskData (fst (ws_run options taskId evs s)) = taskData s
       \<and> taskStatusRef (fst (ws_run options taskId evs s)) = taskStatusRef s
       \<and> filter isReconnect (snd (ws_run options taskId evs s)) = []"
  using assms
proof (induction evs arbitrary: s)
  case Nil
  then show ?case by simp
next
  case (Cons ev evs)
  let ?s1 = "fst (ws_step options taskId ev s)"
  have ev: "\<not> isSnapshotEvent ev" using Cons.prems(2) by simp
  have t1: "taskStatusRef ?s1 = taskStatusRef s" and d1: "taskData ?s1 = taskData s"
    using ws_step_no_snapshot [OF ev] by simp_all
  have r1: "filter isReconnect (snd (ws_step options taskId ev s)) = []"
    using ws_step_terminal_no_reconnect [OF Cons.prems(1) ev] .
  have "isTerminal (taskStatusRef ?s1)" using t1 Cons.prems(1) by simp
  moreover have "\<forall>e \<in> set evs. \<not> isSnapshotEvent e" using Cons.prems(2) by simp
  ultimately have ih: "taskData (fst (ws_run options taskId evs ?s1)) = taskData ?s1
       \<and> taskStatusRef (fst (ws_run options taskId evs ?s1)) = taskStatusRef ?s1
       \<and> filter isReconnect (snd (ws_run options taskId evs ?s1)) = []"
    by (rule Cons.IH)
  show ?case using ih t1 d1 r1 by (simp add: ws_run_Cons del: ws_run.simps)
qed

subsection \<open>Terminal snapshots\<close>

text \<open>
  C2, as amended. After a snapshot \<open>d\<close> with status completed or failed, the handler
  asks for the socket to be closed, and for as long as no further snapshot arrives (any
  number of close, error, open and timer events, and malformed messages) the observed
  task data stays \<open>d\<close> and no reconnection is scheduled. A later snapshot \<open>d'\<close> is not
  ignored: it becomes the observed task data and its status is written to the status
  cell.
\<close>

theorem terminal_snapshot_holds_until_next_snapshot:
  assumes "status d = Completed \<or> status d = Failed"
    and "\<forall>ev \<in> set evs. \<not> isSnapshotEvent ev"
  shows "taskData (fst (ws_run options taskId (WsMessage (Snapshot d) # evs) s)) = Some d
       \<and> filter isReconnect (snd (ws_run options taskId (WsMessage (Snapshot d) # evs) s)) = []
       \<and> SocketClose \<in> set (snd (ws_run options taskId (WsMessage (Snapshot d) # evs) s))
       \<and> taskData (fst (ws_run options taskId
                          (WsMessage (Snapshot d) # evs @ [WsMessage (Snapshot d')]) s))
           = Some d'
       \<and> taskStatusRef (fst (ws_run options taskId
                          (WsMessage (Snapshot d) # evs @ [WsMessage (Snapshot d')]) s))
           = Some (status d')"
proof -
  let ?s1 = "fst (ws_step options taskId (WsMessage (Snapshot d)) s)"
  let ?o1 = "snd (ws_step options taskId (WsMessage (Snapshot d)) s)"
  have s1: "taskData ?s1 = Some d" "taskStatusRef ?s1 = Some (status d)"
    by (simp_all add: ws_step_def ws_onmessage_def)
  have o1: "filter isReconnect ?o1 = []" "SocketClose \<in> set ?o1"
    using assms(1) by (auto simp: ws_step_def ws_onmessage_def)
  have "isTerminal (taskStatusRef ?s1)" using s1 assms(1) by (simp add: isTerminal_def)
  from ws_run_terminal [OF this assms(2)]
  have rest: "taskData (fst (ws_run options taskId evs ?s1)) = Some d"
    "filter isReconnect (snd (ws_run options taskId evs ?s1)) = []"
    using s1 by simp_all
  have last: "taskData (fst (ws_run options taskId (evs @ [WsMessage (Snapshot d')]) ?s1)) = Some d'"
    "taskStatusRef (fst (ws_run options taskId (evs @ [WsMessage (Snapshot d')]) ?s1))
       = Some (status d')"
    by (simp_all add: ws_run_snoc ws_step_def ws_onmessage_def)
  show ?thesis using rest o1 last by (simp add: ws_run_Cons del: ws_run.simps)
qed

theorem terminal_snapshot_holds_until_next_snapshot_witness:
  "(status (exampleTask Completed) = Completed \<or> status (exampleTask Completed) = Failed)
   \<and> taskData (fst (ws_run defaultOptions (Some ''t1'')
         (WsMessage (Snapshot (exampleTask Completed)) # [WsClose, TimerFires, WsError, WsClose])
         initialWebSocketState)) = Some (exampleTask Completed)
   \<and> filter isReconnect (snd (ws_run defaultOptions (Some ''t1'')
         (WsMessage (Snapshot (exampleTask Completed)) # [WsClose, TimerFires, WsError, WsClose])
         initialWebSocketState)) = []
   \<and> taskStatusRef (fst (ws_run defaultOptions (Some ''t1'')
         (WsMessage (Snapshot (exampleTask Completed)) # [WsClose, TimerFires, WsError, WsClose]
          @ [WsMessage (Snapshot (exampleTask Running))])
         initialWebSocketState)) = Some Running"
proof -
  have h1: "status (exampleTask Completed) = Completed \<or> status (exampleTask Completed) = Failed"
    by (simp add: exampleTask_def)
  have h2: "\<forall>ev \<in> set [WsClose, TimerFires, WsError, WsClose]. \<not> isSnapshotEvent ev"
    by simp
  have h3: "status (exampleTask Running) = Running" by (simp add: exampleTask_def)
  from terminal_snapshot_holds_until_next_snapshot [OF h1 h2, of defaultOptions "Some ''t1''"
         initialWebSocketState "exampleTask Running"] h1 h3
  show ?thesis by simp
qed

text \<open>
  C2 as stated fails: after a completed snapshot, a running snapshot replaces the
  observed task data, and the close that follows schedules a reconnection.
\<close>

theorem later_snapshot_counterexample:
  "taskData (fst (ws_run defaultOptions (Some ''t1'')
      [WsMessage (Snapshot (exampleTask Completed))]
      initialWebSocketState)) = Some (exampleTask Completed)
   \<and> taskData (fst (ws_run defaultOptions (Some ''t1'')
      [WsMessage (Snapshot (exampleTask Completed)), WsMessage (Snapshot (exampleTask Running))]
      initialWebSocketState)) = Some (exampleTask Running)
   \<and> exampleTask Running \<noteq> exampleTask Completed
   \<and> snd (ws_run defaultOptions (Some ''t1'')
      [WsMessage (Snapshot (exampleTask Completed)), WsMessage (Snapshot (exampleTask Running)),
       WsClose]
      initialWebSocketState) = [SocketClose, SetTimeoutConnect 2000]"
  by (simp add: ws_step_def ws_onmessage_def ws_onclose_def defaultOptions_def
      initialWebSocketState_def exampleTask_def maxAttempts_def interval_def Let_def)

subsection \<open>Malformed messages\<close>

text \<open>
  C3, as amended. On a message that is not JSON the handler throws the \<open>SyntaxError\<close>
  of \<open>JSON.parse\<close> before it writes anything: the connection status, the task data, the
  attempt counter and the status cell are as before, no callback is called, and the rest
  of the run goes on as if the message had not arrived.
\<close>

theorem malformed_message_throws_state_kept:
  "ws_onmessage options Malformed s = Inl SyntaxError
   \<and> ws_step options taskId (WsMessage Malformed) s = (s, [Uncaught SyntaxError])
   \<and> fst (ws_run options taskId (WsMessage Malformed # evs) s) = fst (ws_run options taskId evs s)
   \<and> snd (ws_run options taskId (WsMessage Malformed # evs) s)
        = Uncaught SyntaxError # snd (ws_run options taskId evs s)"
  by (simp add: ws_onmessage_def ws_step_def ws_run_Cons del: ws_run.simps)

text \<open>
  C3 as stated fails: the handler does throw on a malformed message.
\<close>

theorem malformed_message_counterexample:
  "ws_onmessage defaultOptions Malformed initialWebSocketState = Inl SyntaxError"
  by (simp add: ws_onmessage_def)

subsection \<open>The backoff schedule\<close>

lemma ws_step_quiet:
  assumes "\<not> isOpenOrMessage ev" and "ev \<noteq> WsClose"
  shows "attemptsRef (fst (ws_step options taskId ev s)) = attemptsRef s"
    and "taskStatusRef (fst (ws_step options taskId ev s)) = taskStatusRef s"
  using assms
  by (cases ev; cases taskId; simp add: ws_step_def ws_onerror_def connect_def)+

lemma ws_onclose_attempts:
  assumes "\<not> isTerminal (taskStatusRef s)"
  shows "attemptsRef (fst (ws_onclose options s))
           = (if int (attemptsRef s) < maxAttempts options then attemptsRef s + 1 else attemptsRef s)"
    and "taskStatusRef (fst (ws_onclose options s)) = taskStatusRef s"
    and "snd (ws_onclose options s)
           = (if int (attemptsRef s) < maxAttempts options
              then [SetTimeoutConnect (interval options * 2 ^ attemptsRef s)] else [])"
  using assms by (simp_all add: ws_onclose_def Let_def isTerminal_def)

lemma ws_run_attempts:
  assumes "\<not> isTerminal (taskStatusRef s)" and "\<forall>ev \<in> set evs. \<not> isOpenOrMessage ev"
  shows "taskStatusRef (fst (ws_run options taskId evs s)) = taskStatusRef s
       \<and> attemptsRef (fst (ws_run options taskId evs s))
           = (if int (attemptsRef s) < maxAttempts options
              then min (attemptsRef s + closes evs) (nat (maxAttempts options))
              else attemptsRef s)"
  using assms
proof (induction evs arbitrary: s)
  case Nil
  then show ?case by (simp add: closes_def)
next
  case (Cons ev evs)
  let ?s1 = "fst (ws_step options taskId ev s)"
  have quiet: "\<not> isOpenOrMessage ev" and rest: "\<forall>e \<in> set evs. \<not> isOpenOrMessage e"
    using Cons.prems(2) by simp_all
  show ?case
  proof (cases "ev = WsClose")
    case True
    have s1: "?s1 = fst (ws_onclose options s)" using True by (simp add: ws_step_def)
    have a1: "attemptsRef ?s1
           = (if int (attemptsRef s) < maxAttempts options then attemptsRef s + 1 else attemptsRef s)"
      and t1: "taskStatusRef ?s1 = taskStatusRef s"
      unfolding s1 using ws_onclose_attempts [OF Cons.prems(1)] by simp_all
    have "\<not> isTerminal (taskStatusRef ?s1)" using t1 Cons.prems(1) by simp
    from Cons.IH [OF this rest] t1 a1 True show ?thesis
      by (auto simp: ws_run_Cons closes_def simp del: ws_run.simps)
  next
    case False
    have a1: "attemptsRef ?s1 = attemptsRef s" and t1: "taskStatusRef ?s1 = taskStatusRef s"
      using ws_step_quiet [OF quiet False] by simp_all
    have "\<not> isTerminal (taskStatusRef ?s1)" using t1 Cons.prems(1) by simp
    from Cons.IH [OF this rest] t1 a1 False show ?thesis
      by (auto simp: ws_run_Cons closes_def simp del: ws_run.simps)
  qed
qed

text \<open>
  C4. Start with the attempt counter at \<open>0\<close> (as \<open>ws.onopen\<close> leaves it) and a status
  cell that is not terminal, and let any events but opens and messages happen, \<open>k\<close> of
  them closes. The next close schedules a reconnection after
  \<open>interval * 2 ^ k\<close> milliseconds when \<open>k < maxAttempts\<close> and schedules nothing
  otherwise. A close in any state whose counter has reached \<open>maxAttempts\<close> schedules
  nothing. The defaults are \<open>5\<close> attempts and \<open>2000\<close> ms.
\<close>

theorem backoff_schedule:
  assumes "attemptsRef s = 0" and "\<not> isTerminal (taskStatusRef s)"
    and "\<forall>ev \<in> set evs. \<not> isOpenOrMessage ev"
  shows "snd (ws_onclose options (fst (ws_run options taskId evs s)))
           = (if int (closes evs) < maxAttempts options
              then [SetTimeoutConnect (interval options * 2 ^ closes evs)] else [])
       \<and> (maxAttempts options \<le> int (attemptsRef s2) \<longrightarrow> snd (ws_onclose options s2) = [])
       \<and> attemptsRef (fst (ws_onopen s2)) = 0
       \<and> maxAttempts defaultOptions = 5 \<and> interval defaultOptions = 2000"
proof -
  let ?s' = "fst (ws_run options taskId evs s)"
  from ws_run_attempts [OF assms(2,3)] assms(1)
  have t: "taskStatusRef ?s' = taskStatusRef s"
    and a: "attemptsRef ?s' = (if 0 < maxAttempts options
              then min (closes evs) (nat (maxAttempts options)) else 0)"
    by simp_all
  have nt: "\<not> isTerminal (taskStatusRef ?s')" using t assms(2) by simp
  have 1: "snd (ws_onclose options ?s')
           = (if int (closes evs) < maxAttempts options
              then [SetTimeoutConnect (interval options * 2 ^ closes evs)] else [])"
    unfolding ws_onclose_attempts(3) [OF nt] a by (auto simp: min_def)
  have 2: "maxAttempts options \<le> int (attemptsRef s2) \<longrightarrow> snd (ws_onclose options s2) = []"
    by (simp add: ws_onclose_def Let_def)
  from 1 2 show ?thesis
    by (simp add: ws_onopen_def maxAttempts_def interval_def defaultOptions_def)
qed

text \<open>
  Three failed connections with the default options: the fourth close waits
  \<open>2000 * 2 ^ 3\<close> ms; a close with the counter at \<open>5\<close> schedules nothing.
\<close>

theorem backoff_schedule_witness:
  "attemptsRef initialWebSocketState = 0 \<and> \<not> isTerminal (taskStatusRef initialWebSocketState)
   \<and> snd (ws_onclose defaultOptions (fst (ws_run defaultOptions (Some ''t1'')
            [WsClose, TimerFires, WsError, WsClose, TimerFires, WsClose, TimerFires]
            initialWebSocketState)))
       = [SetTimeoutConnect 16000]
   \<and> maxAttempts defaultOptions \<le> int (attemptsRef (initialWebSocketState\<lparr>attemptsRef := 5\<rparr>))
   \<and> snd (ws_onclose defaultOptions (initialWebSocketState\<lparr>attemptsRef := 5\<rparr>)) = []"
proof -
  have h1: "attemptsRef initialWebSocketState = 0" by (simp add: initialWebSocketState_def)
  have h2: "\<not> isTerminal (taskStatusRef initialWebSocketState)"
    by (simp add: initialWebSocketState_def isTerminal_def)
  have h3: "\<forall>ev \<in> set [WsClose, TimerFires, WsError, WsClose, TimerFires, WsClose, TimerFires].
         \<not> isOpenOrMessage ev" by simp
  have h4: "maxAttempts defaultOptions
              \<le> int (attemptsRef (initialWebSocketState\<lparr>attemptsRef := 5\<rparr>))"
    by (simp add: maxAttempts_def defaultOptions_def)
  have k: "closes [WsClose, TimerFires, WsError, WsClose, TimerFires, WsClose, TimerFires] = 3"
    by (simp add: closes_def)
  from backoff_schedule [OF h1 h2 h3, of defaultOptions "Some ''t1''"
         "initialWebSocketState\<lparr>attemptsRef := 5\<rparr>"] h1 h2 h4
  show ?thesis
    by (simp add: k maxAttempts_def interval_def defaultOptions_def)
qed

section \<open>Properties of the JSON texts\<close>

subsection \<open>Numbers\<close>

lemma code_char_of: "n < 256 \<Longrightarrow> code (char_of n) = n"
  by (simp add: code_def)

lemma char_of_code: "char_of (code c) = c"
  by (simp add: code_def)

lemma digit_char: "k < (10::nat) \<Longrightarrow> code (char_of (48 + k)) = 48 + k"
  by (simp add: code_char_of)

lemma isDigit_digit: "k < (10::nat) \<Longrightarrow> isDigit (char_of (48 + k))"
  by (simp add: isDigit_def digit_char)

lemma takeWhile_all:
  "\<forall>x \<in> set xs. P x \<Longrightarrow> ys = [] \<or> \<not> P (hd ys) \<Longrightarrow> takeWhile P (xs @ ys) = xs"
  by (induction xs) (auto simp: takeWhile_eq_Nil_iff neq_Nil_conv)

lemma dropWhile_all:
  "\<forall>x \<in> set xs. P x \<Longrightarrow> ys = [] \<or> \<not> P (hd ys) \<Longrightarrow> dropWhile P (xs @ ys) = ys"
  by (induction xs) (auto simp: dropWhile_eq_self_iff neq_Nil_conv)

lemma readNat_snoc: "readNat (ds @ [c]) = 10 * readNat ds + (code c - 48)"
  by (simp add: readNat_def)

lemma readNat_append: "readNat (xs @ ys) = readNat xs * 10 ^ length ys + readNat ys"
proof (induction ys rule: rev_induct)
  case Nil
  show ?case by (simp add: readNat_def)
next
  case (snoc c ys)
  have "readNat (xs @ ys @ [c]) = 10 * readNat (xs @ ys) + (code c - 48)"
    using readNat_snoc [of "xs @ ys" c] by simp
  then show ?case by (simp add: snoc.IH readNat_snoc algebra_simps)
qed

lemma natToString_digits: "\<forall>c \<in> set (natToString n). isDigit c"
proof (induction n rule: natToString.induct)
  case (1 n)
  show ?case
  proof (cases "n < 10")
    case True
    then show ?thesis by (subst natToString.simps) (simp add: isDigit_digit)
  next
    case False
    then show ?thesis using 1 by (subst natToString.simps) (simp add: isDigit_digit)
  qed
qed

lemma natToString_nonempty: "natToString n \<noteq> []"
  by (subst natToString.simps) simp

lemma readNat_natToString: "readNat (natToString n) = n"
proof (induction n rule: natToString.induct)
  case (1 n)
  show ?case
  proof (cases "n < 10")
    case True
    then show ?thesis by (subst natToString.simps) (simp add: readNat_def digit_char)
  next
    case False
    then show ?thesis using 1
      by (subst natToString.simps) (simp add: readNat_snoc digit_char)
  qed
qed

lemma natToString_hd: "0 < n \<Longrightarrow> code (hd (natToString n)) \<noteq> 48"
proof (induction n rule: natToString.induct)
  case (1 n)
  show ?case
  proof (cases "n < 10")
    case True
    then show ?thesis using "1.prems" by (subst natToString.simps) (simp add: digit_char)
  next
    case False
    then have "0 < n div 10" by simp
    with 1 False have "code (hd (natToString (n div 10))) \<noteq> 48" by simp
    then show ?thesis using False natToString_nonempty [of "n div 10"]
      by (subst natToString.simps) simp
  qed
qed

lemma natToString_length: "1 < length (natToString n) \<Longrightarrow> 0 < n"
  by (subst (asm) natToString.simps) (auto split: if_splits)

lemma fixedDigits_length: "length (fixedDigits e k) = e"
  by (induction e arbitrary: k) simp_all

lemma fixedDigits_digits: "\<forall>c \<in> set (fixedDigits e k). isDigit c"
  by (induction e arbitrary: k) (simp_all add: isDigit_digit)

lemma readNat_fixedDigits: "readNat (fixedDigits e k) = k mod 10 ^ e"
proof (induction e arbitrary: k)
  case 0
  show ?case by (simp add: readNat_def)
next
  case (Suc e)
  have "readNat (fixedDigits (Suc e) k) = 10 * (k div 10 mod 10 ^ e) + k mod 10"
    by (simp add: readNat_snoc Suc.IH digit_char)
  also have "\<dots> = k mod 10 ^ Suc e"
    by (simp add: mod_mult2_eq)
  finally show ?case .
qed

lemma parseNumber_numberToText:
  assumes "numberEnds rest"
  shows "parseNumber (numberToText d @ rest) = Some (d, rest)"
proof -
  obtain m e where d: "d = Decimal m e" by (cases d)
  let ?a = "nat \<bar>m\<bar>"
  let ?w = "natToString (?a div 10 ^ e)"
  let ?body = "?w @ (if e = 0 then [] else CHR ''.'' # fixedDigits e (?a mod 10 ^ e)) @ rest"
  have rest: "rest = [] \<or> \<not> isDigit (hd rest)" and dot: "rest = [] \<or> code (hd rest) \<noteq> 46"
    using assms by (auto simp: numberEnds_def)
  have shape: "numberToText d @ rest = (if m < 0 then ''-'' else []) @ ?body"
    by (simp add: numberToText_def d Let_def)
  have hdw: "isDigit (hd ?w)" using natToString_digits [of "?a div 10 ^ e"] natToString_nonempty
    by (metis hd_in_set)
  have nominus: "code (hd ?body) \<noteq> 45"
    using hdw natToString_nonempty [of "?a div 10 ^ e"] by (auto simp: isDigit_def)
  have bodyne: "?body \<noteq> []" using natToString_nonempty by simp
  have strip: "(if m < 0 then tl (numberToText d @ rest) else numberToText d @ rest) = ?body"
    and neg: "((numberToText d @ rest) \<noteq> [] \<and> code (hd (numberToText d @ rest)) = 45) = (m < 0)"
    unfolding shape using nominus bodyne by (auto simp: code_def)
  have stop: "(if e = 0 then [] else CHR ''.'' # fixedDigits e (?a mod 10 ^ e)) @ rest = []
      \<or> \<not> isDigit (hd ((if e = 0 then [] else CHR ''.'' # fixedDigits e (?a mod 10 ^ e)) @ rest))"
    using rest by (auto simp: isDigit_def code_def)
  have whole: "takeWhile isDigit ?body = ?w"
    using takeWhile_all [OF natToString_digits stop] by simp
  have after: "dropWhile isDigit ?body
                 = (if e = 0 then [] else CHR ''.'' # fixedDigits e (?a mod 10 ^ e)) @ rest"
    using dropWhile_all [OF natToString_digits stop] by simp
  have lead: "\<not> (1 < length ?w \<and> code (hd ?w) = 48)"
    using natToString_hd natToString_length by blast
  have sign: "(if m < 0 then - 1 else 1) * int ?a = m" by simp
  show ?thesis
  proof (cases "e = 0")
    case True
    have "readNat ?w = ?a" using True by (simp add: readNat_natToString)
    then show ?thesis
      unfolding parseNumber_def Let_def neg strip whole after
      using True lead dot natToString_nonempty [of "?a div 10 ^ e"] sign d by auto
  next
    case False
    have frac: "takeWhile isDigit (fixedDigits e (?a mod 10 ^ e) @ rest) = fixedDigits e (?a mod 10 ^ e)"
      and after2: "dropWhile isDigit (fixedDigits e (?a mod 10 ^ e) @ rest) = rest"
      using takeWhile_all [OF fixedDigits_digits rest] dropWhile_all [OF fixedDigits_digits rest]
      by simp_all
    have fne: "fixedDigits e (?a mod 10 ^ e) \<noteq> []"
      using False fixedDigits_length [of e "?a mod 10 ^ e"] by auto
    have "readNat (?w @ fixedDigits e (?a mod 10 ^ e)) = ?a div 10 ^ e * 10 ^ e + ?a mod 10 ^ e"
      by (simp add: readNat_append readNat_natToString readNat_fixedDigits fixedDigits_length)
    then have val: "readNat (?w @ fixedDigits e (?a mod 10 ^ e)) = ?a"
      using div_mult_mod_eq [of ?a "10 ^ e"] by simp
    show ?thesis
      unfolding parseNumber_def Let_def neg strip whole after
      using False lead natToString_nonempty [of "?a div 10 ^ e"] sign d frac after2 fne val
      by (simp add: code_def fixedDigits_length)
  qed
qed

subsection \<open>Strings\<close>

lemma hexValue_hexChar: "n < 16 \<Longrightarrow> hexValue (hexChar n) = Some n"
  by (auto simp: hexValue_def hexChar_def code_char_of)

lemma unicodeEscape_low:
  assumes "code c < 32"
  shows "unicodeEscape [CHR ''0'', CHR ''0'', hexChar (code c div 16), hexChar (code c mod 16)]
           = Some c"
proof -
  have "code c div 16 < 16" using assms by simp
  then have "hexValue (hexChar (code c div 16)) = Some (code c div 16)"
    by (rule hexValue_hexChar)
  moreover have "hexValue (hexChar (code c mod 16)) = Some (code c mod 16)"
    by (rule hexValue_hexChar) simp
  moreover have "hexValue CHR ''0'' = Some 0" by (simp add: hexValue_def code_def)
  ultimately show ?thesis by (simp add: unicodeEscape_def char_of_code)
qed

lemma code_inject: "code c = code c' \<Longrightarrow> c = c'"
  by (simp add: code_def)

lemma readString_escapeChar:
  assumes "readString s = Some (str, rest)"
  shows "readString (escapeChar c @ s) = Some (c # str, rest)"
proof -
  consider (quote) "code c = 34" | (backslash) "code c = 92" | (b) "code c = 8"
    | (f) "code c = 12" | (n) "code c = 10" | (r) "code c = 13" | (t) "code c = 9"
    | (low) "code c < 32" "code c \<notin> {8, 9, 10, 12, 13}"
    | (plain) "32 \<le> code c" "code c \<noteq> 34" "code c \<noteq> 92"
    by fastforce
  then show ?thesis
  proof cases
    case quote
    then have "c = CHR 0x22" by (intro code_inject) (simp add: code_def)
    then show ?thesis using assms
      by (simp add: escapeChar_def unescape_def code_def)
  next
    case backslash
    then have "c = CHR 0x5C" by (intro code_inject) (simp add: code_def)
    then show ?thesis using assms
      by (simp add: escapeChar_def unescape_def code_def)
  next
    case b
    then have "c = CHR 0x08" by (intro code_inject) (simp add: code_def)
    then show ?thesis using assms
      by (simp add: escapeChar_def unescape_def code_def)
  next
    case f
    then have "c = CHR 0x0C" by (intro code_inject) (simp add: code_def)
    then show ?thesis using assms
      by (simp add: escapeChar_def unescape_def code_def)
  next
    case n
    then have "c = CHR 0x0A" by (intro code_inject) (simp add: code_def)
    then show ?thesis using assms
      by (simp add: escapeChar_def unescape_def code_def)
  next
    case r
    then have "c = CHR 0x0D" by (intro code_inject) (simp add: code_def)
    then show ?thesis using assms
      by (simp add: escapeChar_def unescape_def code_def)
  next
    case t
    then have "c = CHR 0x09" by (intro code_inject) (simp add: code_def)
    then show ?thesis using assms
      by (simp add: escapeChar_def unescape_def code_def)
  next
    case low
    have esc: "escapeChar c
      = [CHR 0x5C, CHR ''u'', CHR ''0'', CHR ''0'', hexChar (code c div 16), hexChar (code c mod 16)]"
      using low by (auto simp: escapeChar_def)
    have c92: "code (CHR 0x5C) = 92" and c117: "code CHR ''u'' = 117" by (simp_all add: code_def)
    show ?thesis unfolding esc using assms unicodeEscape_low [OF low(1)]
      by (simp add: c92 c117)
  next
    case plain
    then have "escapeChar c = [c]" by (auto simp: escapeChar_def)
    then show ?thesis using assms plain by simp
  qed
qed

lemma readString_escaped:
  "readString (concat (map escapeChar s) @ CHR 0x22 # rest) = Some (s, rest)"
proof (induction s)
  case Nil
  show ?case by (simp add: code_def)
next
  case (Cons c s)
  show ?case using readString_escapeChar [OF Cons.IH, of c] by simp
qed

subsection \<open>Values\<close>

lemma skipWhitespace_start: "\<not> isWhitespace c \<Longrightarrow> skipWhitespace (c # cs) = c # cs"
  by (simp add: skipWhitespace_def)

lemma numberToText_start:
  "\<exists>c cs. numberToText d = c # cs \<and> (code c = 45 \<or> isDigit c)"
proof -
  let ?w = "natToString (nat \<bar>mantissa d\<bar> div 10 ^ fractionDigits d)"
  let ?tail = "if fractionDigits d = 0 then []
               else CHR ''.'' # fixedDigits (fractionDigits d)
                      (nat \<bar>mantissa d\<bar> mod 10 ^ fractionDigits d)"
  obtain c cs where w: "?w = c # cs" using natToString_nonempty by (cases ?w) auto
  have digit: "isDigit c"
    using natToString_digits [of "nat \<bar>mantissa d\<bar> div 10 ^ fractionDigits d"] w by simp
  have shape: "numberToText d = (if mantissa d < 0 then ''-'' else []) @ ?w @ ?tail"
    by (simp add: numberToText_def Let_def)
  show ?thesis
  proof (cases "mantissa d < 0")
    case True
    then have "numberToText d = CHR ''-'' # ?w @ ?tail" unfolding shape by simp
    moreover have "code (CHR ''-'') = 45" by (simp add: code_def)
    ultimately show ?thesis by blast
  next
    case False
    then have "numberToText d = c # cs @ ?tail" unfolding shape w by simp
    then show ?thesis using digit by blast
  qed
qed

lemma parseValue_number:
  assumes "code c = 45 \<or> isDigit c"
  shows "parseValue (Suc fuel) (c # cs)
           = (case parseNumber (c # cs) of
                None \<Rightarrow> None
              | Some (d, rest) \<Rightarrow> Some (JNumber d, rest))"
proof -
  have ws: "\<not> isWhitespace c" using assms by (auto simp: isWhitespace_def isDigit_def)
  have c: "code c \<noteq> 34" "code c \<noteq> 91" "code c \<noteq> 123"
    "c \<noteq> CHR ''n''" "c \<noteq> CHR ''t''" "c \<noteq> CHR ''f''"
    using assms by (auto simp: isDigit_def code_def)
  show ?thesis by (simp add: skipWhitespace_start [OF ws] c)
qed

lemma stringifyValue_start:
  "\<exists>c cs. stringifyValue v = c # cs \<and> \<not> isWhitespace c \<and> code c \<noteq> 93 \<and> code c \<noteq> 125"
proof (cases v)
  case (JNumber d)
  obtain c cs where "numberToText d = c # cs" "code c = 45 \<or> isDigit c"
    using numberToText_start by blast
  then show ?thesis using JNumber by (auto simp: isWhitespace_def isDigit_def)
qed (auto simp: isWhitespace_def code_def quoteString_def)

lemma stringifyValue_length: "1 \<le> length (stringifyValue v)"
  using stringifyValue_start [of v] by auto

lemma stringifyElements_start:
  assumes "vs \<noteq> []"
  shows "\<exists>c cs. stringifyElements vs = c # cs \<and> \<not> isWhitespace c \<and> code c \<noteq> 93"
proof -
  obtain v ws where vs: "vs = v # ws" using assms by (cases vs) auto
  obtain c cs where "stringifyValue v = c # cs" "\<not> isWhitespace c" "code c \<noteq> 93"
    using stringifyValue_start by blast
  then show ?thesis by (simp add: vs)
qed

lemma stringifyMembers_start:
  assumes "ps \<noteq> []"
  shows "\<exists>cs. stringifyMembers ps = CHR 0x22 # cs"
proof -
  obtain p qs where "ps = p # qs" using assms by (cases ps) auto
  then show ?thesis by (simp add: quoteString_def)
qed

lemma numberEnds_separator:
  "code c = 44 \<or> code c = 93 \<or> code c = 125 \<Longrightarrow> numberEnds (c # cs)"
  by (auto simp: numberEnds_def isDigit_def)

lemma parse_stringify_all:
  "(\<forall>fuel rest. length (stringifyValue v) \<le> fuel \<longrightarrow> numberEnds rest \<longrightarrow>
       parseValue fuel (stringifyValue v @ rest) = Some (v, rest))"
  "(vs \<noteq> [] \<longrightarrow> (\<forall>fuel rest. length (stringifyElements vs) < fuel \<longrightarrow>
       parseElements fuel (stringifyElements vs @ CHR '']'' # rest) = Some (vs, rest)))"
  "(ps \<noteq> [] \<longrightarrow> (\<forall>fuel rest. length (stringifyMembers ps) < fuel \<longrightarrow>
       parseMembers fuel (stringifyMembers ps @ CHR ''}'' # rest) = Some (ps, rest)))"
proof (induction v and vs and ps rule: stringifyValue_stringifyElements_stringifyMembers.induct)
  case 1
  show ?case
  proof (intro allI impI)
    fix fuel rest assume "length (stringifyValue JNull) \<le> fuel"
    then obtain f where "fuel = Suc f" by (cases fuel) auto
    then show "parseValue fuel (stringifyValue JNull @ rest) = Some (JNull, rest)"
      by (simp add: skipWhitespace_def isWhitespace_def code_def)
  qed
next
  case (2 b)
  show ?case
  proof (intro allI impI)
    fix fuel rest assume "length (stringifyValue (JBool b)) \<le> fuel"
    then obtain f where "fuel = Suc f" by (cases fuel) (auto split: if_splits)
    then show "parseValue fuel (stringifyValue (JBool b) @ rest) = Some (JBool b, rest)"
      by (cases b) (simp_all add: skipWhitespace_def isWhitespace_def code_def)
  qed
next
  case (3 d)
  show ?case
  proof (intro allI impI)
    fix fuel rest assume len: "length (stringifyValue (JNumber d)) \<le> fuel" and ends: "numberEnds rest"
    obtain c cs where start: "numberToText d = c # cs" "code c = 45 \<or> isDigit c"
      using numberToText_start by blast
    obtain f where f: "fuel = Suc f" using len start by (cases fuel) auto
    have "parseValue (Suc f) (c # cs @ rest)
            = (case parseNumber (c # cs @ rest) of
                 None \<Rightarrow> None | Some (d, rest) \<Rightarrow> Some (JNumber d, rest))"
      by (rule parseValue_number [OF start(2)])
    moreover have "parseNumber (c # cs @ rest) = Some (d, rest)"
      using parseNumber_numberToText [OF ends, of d] start(1) by simp
    ultimately show "parseValue fuel (stringifyValue (JNumber d) @ rest) = Some (JNumber d, rest)"
      by (simp add: f start(1))
  qed
next
  case (4 s)
  show ?case
  proof (intro allI impI)
    fix fuel rest assume "length (stringifyValue (JString s)) \<le> fuel"
    then obtain f where f: "fuel = Suc f" by (cases fuel) (auto simp: quoteString_def)
    have ws: "\<not> isWhitespace (CHR 0x22)" by (simp add: isWhitespace_def code_def)
    have q: "code (CHR 0x22) = 34" by (simp add: code_def)
    show "parseValue fuel (stringifyValue (JString s) @ rest) = Some (JString s, rest)"
      by (simp add: f quoteString_def skipWhitespace_start [OF ws] q readString_escaped)
  qed
next
  case (5 vs)
  show ?case
  proof (intro allI impI)
    fix fuel rest assume len: "length (stringifyValue (JArray vs)) \<le> fuel"
    then obtain f where f: "fuel = Suc f" by (cases fuel) auto
    have ws: "\<not> isWhitespace (CHR ''['')" "\<not> isWhitespace (CHR '']'')"
      by (simp_all add: isWhitespace_def code_def)
    have codes: "code (CHR ''['') = 91" "code (CHR '']'') = 93" by (simp_all add: code_def)
    show "parseValue fuel (stringifyValue (JArray vs) @ rest) = Some (JArray vs, rest)"
    proof (cases "vs = []")
      case True
      then show ?thesis
        by (simp add: f skipWhitespace_start [OF ws(1)] skipWhitespace_start [OF ws(2)] codes)
    next
      case False
      obtain c cs where start: "stringifyElements vs = c # cs" "\<not> isWhitespace c" "code c \<noteq> 93"
        using stringifyElements_start [OF False] by blast
      have "length (stringifyElements vs) < f" using len f by simp
      with 5 False
      have els: "parseElements f (stringifyElements vs @ CHR '']'' # rest) = Some (vs, rest)"
        by blast
      have "parseValue (Suc f) (CHR ''['' # (c # cs) @ CHR '']'' # rest) = Some (JArray vs, rest)"
        using els start
        by (simp add: skipWhitespace_start [OF ws(1)] skipWhitespace_start [OF start(2)] codes)
      then show ?thesis by (simp add: f start(1))
    qed
  qed
next
  case (6 ps)
  show ?case
  proof (intro allI impI)
    fix fuel rest assume len: "length (stringifyValue (JObject ps)) \<le> fuel"
    then obtain f where f: "fuel = Suc f" by (cases fuel) auto
    have ws: "\<not> isWhitespace (CHR ''{'')" "\<not> isWhitespace (CHR ''}'')" "\<not> isWhitespace (CHR 0x22)"
      by (simp_all add: isWhitespace_def code_def)
    have codes: "code (CHR ''{'') = 123" "code (CHR ''}'') = 125" "code (CHR 0x22) = 34"
      by (simp_all add: code_def)
    show "parseValue fuel (stringifyValue (JObject ps) @ rest) = Some (JObject ps, rest)"
    proof (cases "ps = []")
      case True
      then show ?thesis
        by (simp add: f skipWhitespace_start [OF ws(1)] skipWhitespace_start [OF ws(2)] codes)
    next
      case False
      obtain cs where start: "stringifyMembers ps = CHR 0x22 # cs"
        using stringifyMembers_start [OF False] by blast
      have "length (stringifyMembers ps) < f" using len f by simp
      with 6 False
      have mem: "parseMembers f (stringifyMembers ps @ CHR ''}'' # rest) = Some (ps, rest)"
        by blast
      have "parseValue (Suc f) (CHR ''{'' # (CHR 0x22 # cs) @ CHR ''}'' # rest) = Some (JObject ps, rest)"
        using mem start
        by (simp add: skipWhitespace_start [OF ws(1)] skipWhitespace_start [OF ws(3)] codes)
      then show ?thesis by (simp add: f start)
    qed
  qed
next
  case 7
  show ?case by simp
next
  case (8 v vs)
  show ?case
  proof (intro allI impI)
    fix fuel rest assume "v # vs \<noteq> []" and len: "length (stringifyElements (v # vs)) < fuel"
    obtain f where f: "fuel = Suc f" using len by (cases fuel) auto
    let ?tail = "(if vs = [] then [] else CHR '','' # stringifyElements vs) @ CHR '']'' # rest"
    have ws: "\<not> isWhitespace (CHR '','')" "\<not> isWhitespace (CHR '']'')"
      by (simp_all add: isWhitespace_def code_def)
    have codes: "code (CHR '','') = 44" "code (CHR '']'') = 93" by (simp_all add: code_def)
    have ends: "numberEnds ?tail" by (auto intro: numberEnds_separator simp: codes)
    have lv: "length (stringifyValue v) \<le> f" using len f by simp
    have first: "parseValue f (stringifyValue v @ ?tail) = Some (v, ?tail)"
      using "8.IH"(1) lv ends by blast
    have shape: "stringifyElements (v # vs) @ CHR '']'' # rest = stringifyValue v @ ?tail"
      by simp
    show "parseElements fuel (stringifyElements (v # vs) @ CHR '']'' # rest) = Some (v # vs, rest)"
    proof (cases "vs = []")
      case True
      then show ?thesis unfolding shape f using first
        by (simp add: skipWhitespace_start [OF ws(2)] codes)
    next
      case False
      have "length (stringifyElements vs) < f"
        using len f False stringifyValue_length [of v] by simp
      with "8.IH"(2) False
      have "parseElements f (stringifyElements vs @ CHR '']'' # rest) = Some (vs, rest)"
        by blast
      then show ?thesis unfolding shape f using first False
        by (simp add: skipWhitespace_start [OF ws(1)] codes)
    qed
  qed
next
  case 9
  show ?case by simp
next
  case (10 p ps)
  show ?case
  proof (intro allI impI)
    fix fuel rest assume "p # ps \<noteq> []" and len: "length (stringifyMembers (p # ps)) < fuel"
    obtain f where f: "fuel = Suc f" using len by (cases fuel) auto
    obtain k v where p: "p = (k, v)" by (cases p)
    let ?tail = "(if ps = [] then [] else CHR '','' # stringifyMembers ps) @ CHR ''}'' # rest"
    have ws: "\<not> isWhitespace (CHR '','')" "\<not> isWhitespace (CHR ''}'')"
      "\<not> isWhitespace (CHR 0x22)" "\<not> isWhitespace (CHR '':'')"
      by (simp_all add: isWhitespace_def code_def)
    have codes: "code (CHR '','') = 44" "code (CHR ''}'') = 125" "code (CHR 0x22) = 34"
      "code (CHR '':'') = 58"
      by (simp_all add: code_def)
    have ends: "numberEnds ?tail" by (auto intro: numberEnds_separator simp: codes)
    have lv: "length (stringifyValue v) \<le> f" using len f p by (simp add: quoteString_def)
    have first: "parseValue f (stringifyValue v @ ?tail) = Some (v, ?tail)"
      using "10.IH"(1) lv ends p by simp
    have shape: "stringifyMembers (p # ps) @ CHR ''}'' # rest
                   = CHR 0x22 # concat (map escapeChar k) @ CHR 0x22 # CHR '':''
                     # stringifyValue v @ ?tail"
      by (simp add: p quoteString_def)
    show "parseMembers fuel (stringifyMembers (p # ps) @ CHR ''}'' # rest) = Some (p # ps, rest)"
    proof (cases "ps = []")
      case True
      then show ?thesis unfolding shape f using first
        by (simp add: skipWhitespace_start [OF ws(3)] skipWhitespace_start [OF ws(4)]
            skipWhitespace_start [OF ws(2)] codes readString_escaped p)
    next
      case False
      have "length (stringifyMembers ps) < f"
        using len f False p by (simp add: quoteString_def)
      with "10.IH"(2) False
      have "parseMembers f (stringifyMembers ps @ CHR ''}'' # rest) = Some (ps, rest)"
        by blast
      then show ?thesis unfolding shape f using first False
        by (simp add: skipWhitespace_start [OF ws(3)] skipWhitespace_start [OF ws(4)]
            skipWhitespace_start [OF ws(1)] codes readString_escaped p)
    qed
  qed
qed

lemma parseText_stringifyValue: "parseText (stringifyValue v) = Some v"
proof -
  have "numberEnds []" by (simp add: numberEnds_def)
  moreover have "length (stringifyValue v) \<le> Suc (length (stringifyValue v))" by simp
  ultimately
  have "parseValue (Suc (length (stringifyValue v))) (stringifyValue v @ []) = Some (v, [])"
    using parse_stringify_all(1) [of v] by blast
  then show ?thesis by (simp add: parseText_def skipWhitespace_def del: parseValue.simps)
qed

subsection \<open>Backup records\<close>

lemma lineFromJS_lineToJS: "lineFromJS (lineToJS l) = Some l"
  by (cases l; cases "display_order l"; cases "line_text l"; cases "confidence l";
      cases "line_notes l")
     (simp_all add: lineToJS_def)

lemma those_lines: "those (map lineFromJS (map lineToJS ls)) = Some ls"
  by (induction ls) (simp_all add: lineFromJS_lineToJS)

lemma backupFromJS_backupToJS: "backupFromJS (backupToJS r) = Some r"
  using those_lines [of "lines r"] by (simp add: backupToJS_def)

lemma JSON_round_trip: "parse JSON (stringify JSON r) = Some r"
  by (simp add: JSON_def parseText_stringifyValue backupFromJS_backupToJS)

lemma JSON_nonempty: "stringify JSON r \<noteq> []"
  by (simp add: JSON_def backupToJS_def)

section \<open>Properties of the auto-save\<close>

subsection \<open>Runs of events\<close>

lemma autosave_run_append:
  "autosave_run json options (xs @ ys) s
     = autosave_run json options ys (autosave_run json options xs s)"
  by (induction xs arbitrary: s) simp_all

lemma save_effects:
  "trace (save json options p s)
     = trace s @ [SetItem (backupKey options) (stringify json \<lparr>lines = p, timestamp = toISOString (now s)\<rparr>),
                  DebounceStart (wait options)]"
  "timer (save json options p s) = Some (wait options, p)"
  by (simp_all add: save_def saveToLocalStorage_def debouncedSave_def Let_def)

lemma elapse_within:
  assumes "timer s = Some (r, p)" and "gap < r"
  shows "trace (elapse gap s) = trace s" and "timer (elapse gap s) = Some (r - gap, p)"
  using assms by (simp_all add: elapse_def)

lemma elapse_fires:
  assumes "timer s = Some (r, p)" and "r \<le> d"
  shows "trace (elapse d s) = trace s @ [OnSave p]" and "timer (elapse d s) = None"
  using assms by (simp_all add: elapse_def saveToServer_call_def)

lemma burst_run:
  assumes "\<forall>(p, gap) \<in> set ps. gap < wait options"
  shows "\<exists>out. trace (autosave_run json options (burst ps pN) s) = trace s @ out
            \<and> filter isOnSave out = []
            \<and> length (filter isSetItem out) = length ps + 1
            \<and> timer (autosave_run json options (burst ps pN) s) = Some (wait options, pN)"
  using assms
proof (induction ps arbitrary: s)
  case Nil
  show ?case by (simp add: autosave_step_def save_effects)
next
  case (Cons pg ps)
  obtain p gap where pg: "pg = (p, gap)" by (cases pg)
  have gap: "gap < wait options" and rest: "\<forall>(p, gap) \<in> set ps. gap < wait options"
    using Cons.prems pg by auto
  let ?s1 = "save json options p s"
  let ?s2 = "elapse gap ?s1"
  have t2: "trace ?s2 = trace s @ [SetItem (backupKey options)
                 (stringify json \<lparr>lines = p, timestamp = toISOString (now s)\<rparr>), DebounceStart (wait options)]"
    using elapse_within(1) [OF save_effects(2) gap] by (simp add: save_effects(1))
  from Cons.IH [OF rest, of ?s2] obtain out where
    out: "trace (autosave_run json options (burst ps pN) ?s2) = trace ?s2 @ out"
      "filter isOnSave out = []" "length (filter isSetItem out) = length ps + 1"
      "timer (autosave_run json options (burst ps pN) ?s2) = Some (wait options, pN)"
    by blast
  have run: "autosave_run json options (burst (pg # ps) pN) s
               = autosave_run json options (burst ps pN) ?s2"
    by (simp add: pg autosave_step_def)
  show ?case unfolding run using out t2 by simp
qed

subsection \<open>Forced saves\<close>

text \<open>
  C1, as amended. \<open>forceSave\<close> drops the pending debounce timer and calls \<open>onSave\<close>
  with its payload at once. The promise it returns is fulfilled whatever the remote
  write does: a rejection is caught by \<open>saveToServer\<close> and shows in the \<open>error\<close>
  cell, as the message of the \<open>Error\<close> or as \<open>Save failed\<close>.
\<close>

theorem forceSave_cancels_writes_and_fulfils:
  "timer (forceSave_call ls s) = None
   \<and> trace (forceSave_call ls s) = trace s @ [OnSave ls]
   \<and> fst (forceSave_settle options outcome s') = Fulfilled
   \<and> error (snd (forceSave_settle options (Rejects (ErrorObject msg)) s')) = Some msg
   \<and> error (snd (forceSave_settle options (Rejects OtherValue) s')) = Some ''Save failed''"
  by (cases outcome)
     (simp_all add: forceSave_call_def forceSave_settle_def saveToServer_call_def
        saveToServer_settle_def debouncedSave_cancel_def)

text \<open>
  C1 as stated fails: the remote write rejects and the promise of \<open>forceSave\<close> is
  fulfilled, not rejected.
\<close>

theorem forceSave_rejection_counterexample:
  "fst (forceSave_settle examplePage (Rejects (ErrorObject ''offline''))
          (forceSave_call [exampleLine ''a''] initialAutoSaveState)) = Fulfilled
   \<and> fst (forceSave_settle examplePage (Rejects (ErrorObject ''offline''))
          (forceSave_call [exampleLine ''a''] initialAutoSaveState))
       \<noteq> RejectedWith (ErrorObject ''offline'')"
  by (simp add: forceSave_settle_def saveToServer_settle_def)

subsection \<open>Failed remote writes\<close>

text \<open>
  C6. When the promise of \<open>onSave\<close> rejects, in whatever state: \<open>error\<close> is the
  message of the failure, \<open>hasUnsavedChanges\<close> keeps its value (so it is still true
  where it was), the storage and with it the backup are as before, the debounce timer
  is as before, and the only effect is the line on the console: no remote write and no
  timer is started.
\<close>

theorem failed_write_keeps_backup:
  "error (snd (saveToServer_settle options (Rejects err) s))
     = Some (case err of ErrorObject msg \<Rightarrow> msg | OtherValue \<Rightarrow> ''Save failed'')
   \<and> hasUnsavedChanges (snd (saveToServer_settle options (Rejects err) s)) = hasUnsavedChanges s
   \<and> localStorage (snd (saveToServer_settle options (Rejects err) s)) = localStorage s
   \<and> getBackup json options (snd (saveToServer_settle options (Rejects err) s))
       = getBackup json options s
   \<and> timer (snd (saveToServer_settle options (Rejects err) s)) = timer s
   \<and> trace (snd (saveToServer_settle options (Rejects err) s)) = trace s @ [ConsoleError err]"
  by (simp add: saveToServer_settle_def getBackup_def)

subsection \<open>The backup\<close>

text \<open>
  C9. With \<open>JSON.stringify\<close> and \<open>JSON.parse\<close> of the library, for every payload
  \<open>P1\<close> and in every state, \<open>getBackup\<close> right after \<open>save(P1)\<close> returns the
  record that was written: its lines are \<open>P1\<close> and its timestamp is the time of the
  save. After a remote write has resolved, started by the debounce timer or by
  \<open>forceSave\<close>, \<open>getBackup\<close> returns null, whatever the serialisation.
\<close>

theorem backup_round_trip:
  "getBackup JSON options (save JSON options P1 s)
     = Some \<lparr>lines = P1, timestamp = toISOString (now s)\<rparr>
   \<and> lines (the (getBackup JSON options (save JSON options P1 s))) = P1
   \<and> getBackup json options (snd (saveToServer_settle options Resolves s')) = None
   \<and> getBackup json options (snd (forceSave_settle options Resolves s')) = None"
proof -
  let ?r = "\<lparr>lines = P1, timestamp = toISOString (now s)\<rparr>"
  have "localStorage (save JSON options P1 s) (backupKey options) = Some (stringify JSON ?r)"
    by (simp add: save_def saveToLocalStorage_def debouncedSave_def Let_def)
  then have 1: "getBackup JSON options (save JSON options P1 s) = Some ?r"
    using JSON_round_trip [of ?r] JSON_nonempty [of ?r] by (simp add: getBackup_def)
  have 2: "getBackup json options (snd (saveToServer_settle options Resolves s')) = None"
    by (simp add: getBackup_def saveToServer_settle_def)
  then have 3: "getBackup json options (snd (forceSave_settle options Resolves s')) = None"
    by (simp add: forceSave_settle_def)
  from 1 2 3 show ?thesis by simp
qed

text \<open>
  One line saved at time \<open>0\<close> on a fresh page: the backup is there after the save and
  gone after the debounced write has resolved.
\<close>

theorem backup_round_trip_witness:
  "getBackup JSON examplePage
       (save JSON examplePage [exampleLine ''shalom''] initialAutoSaveState)
     = Some \<lparr>lines = [exampleLine ''shalom''], timestamp = toISOString 0\<rparr>
   \<and> getBackup JSON examplePage
       (autosave_run JSON examplePage
          [Save [exampleLine ''shalom''], Elapse 3000, Settle Resolves] initialAutoSaveState)
     = None"
proof -
  have t: "now initialAutoSaveState = 0"
    by (simp add: initialAutoSaveState_def)
  have run: "autosave_run JSON examplePage
          [Save [exampleLine ''shalom''], Elapse 3000, Settle Resolves] initialAutoSaveState
        = snd (saveToServer_settle examplePage Resolves
            (elapse 3000 (save JSON examplePage [exampleLine ''shalom''] initialAutoSaveState)))"
    by (simp add: autosave_step_def)
  from backup_round_trip [of examplePage "[exampleLine ''shalom'']" initialAutoSaveState JSON
         "elapse 3000 (save JSON examplePage [exampleLine ''shalom''] initialAutoSaveState)"]
  show ?thesis unfolding run t by simp
qed

subsection \<open>Debounce coalescing\<close>

text \<open>
  C5. A burst of \<open>N\<close> saves, each following the one before by less than the debounce
  time, and then a pause of at least the debounce time: among the effects of the run
  there is exactly one call of \<open>onSave\<close>, with the last payload, and there are exactly
  \<open>N\<close> writes to the storage; before the pause there is no call of \<open>onSave\<close>. Each
  \<open>save\<close> writes the backup first and starts the debounce timer second.
\<close>

theorem debounce_coalescing:
  assumes "\<forall>(p, gap) \<in> set ps. gap < wait options" and "wait options \<le> d"
  shows "filter isOnSave (newEffects s (autosave_run json options (burst ps pN @ [Elapse d]) s))
           = [OnSave pN]
       \<and> length (filter isSetItem
            (newEffects s (autosave_run json options (burst ps pN @ [Elapse d]) s)))
           = length ps + 1
       \<and> filter isOnSave (newEffects s (autosave_run json options (burst ps pN) s)) = []
       \<and> newEffects s (save json options p s)
           = [SetItem (backupKey options) (stringify json \<lparr>lines = p, timestamp = toISOString (now s)\<rparr>),
              DebounceStart (wait options)]"
proof -
  let ?s1 = "autosave_run json options (burst ps pN) s"
  from burst_run [OF assms(1), of json pN s] obtain out where
    out: "trace ?s1 = trace s @ out" "filter isOnSave out = []"
      "length (filter isSetItem out) = length ps + 1" "timer ?s1 = Some (wait options, pN)"
    by blast
  have "trace (elapse d ?s1) = trace s @ out @ [OnSave pN]"
    using elapse_fires(1) [OF out(4) assms(2)] out(1) by simp
  then have fin: "newEffects s (autosave_run json options (burst ps pN @ [Elapse d]) s)
                    = out @ [OnSave pN]"
    by (simp add: newEffects_def autosave_run_append autosave_step_def)
  have mid: "newEffects s ?s1 = out" using out(1) by (simp add: newEffects_def)
  show ?thesis unfolding fin mid using out(2,3)
    by (simp add: newEffects_def save_effects)
qed

text \<open>
  Three saves, 1000 ms and 2999 ms apart, then 3000 ms of quiet, with the default
  debounce time of 3000 ms.
\<close>

theorem debounce_coalescing_witness:
  "wait examplePage \<le> 3000
   \<and> filter isOnSave (newEffects initialAutoSaveState
        (autosave_run JSON examplePage
           (burst [([exampleLine ''a''], 1000), ([exampleLine ''ab''], 2999)] [exampleLine ''abc'']
            @ [Elapse 3000]) initialAutoSaveState))
       = [OnSave [exampleLine ''abc'']]
   \<and> length (filter isSetItem (newEffects initialAutoSaveState
        (autosave_run JSON examplePage
           (burst [([exampleLine ''a''], 1000), ([exampleLine ''ab''], 2999)] [exampleLine ''abc'']
            @ [Elapse 3000]) initialAutoSaveState)))
       = 3"
proof -
  have h1: "\<forall>(p, gap) \<in> set [([exampleLine ''a''], 1000), ([exampleLine ''ab''], 2999)].
       gap < wait examplePage"
    by (simp add: wait_def examplePage_def)
  have h2: "wait examplePage \<le> 3000" by (simp add: wait_def examplePage_def)
  from debounce_coalescing [OF h1 h2, of initialAutoSaveState JSON "[exampleLine ''abc'']"]
  have "filter isOnSave (newEffects initialAutoSaveState
        (autosave_run JSON examplePage
           (burst [([exampleLine ''a''], 1000), ([exampleLine ''ab''], 2999)] [exampleLine ''abc'']
            @ [Elapse 3000]) initialAutoSaveState))
       = [OnSave [exampleLine ''abc'']]"
    and "length (filter isSetItem (newEffects initialAutoSaveState
        (autosave_run JSON examplePage
           (burst [([exampleLine ''a''], 1000), ([exampleLine ''ab''], 2999)] [exampleLine ''abc'']
            @ [Elapse 3000]) initialAutoSaveState)))
       = length [([exampleLine ''a''], 1000::nat), ([exampleLine ''ab''], 2999)] + 1"
    by blast+
  then show ?thesis using h2 by simp
qed

end
